theory Spec2Isabelle
  imports Main
begin

section \<open>The transient stream handler of fabulous.logs\<close>

text \<open>
  The development embeds \<^verbatim>\<open>src/fabulous/logs.py\<close>: the class
  \<^verbatim>\<open>TransientStreamHandler\<close> with its methods \<^verbatim>\<open>__init__\<close>,
  \<^verbatim>\<open>close\<close>, \<^verbatim>\<open>write\<close>, \<^verbatim>\<open>transient_write\<close> and
  \<^verbatim>\<open>emit\<close>. The module is Python 2 code (it reads \<^verbatim>\<open>logging._levelNames\<close>),
  so a string is a byte string: a list of 8-bit characters.
\<close>

subsection \<open>Exceptions, characters, lengths\<close>

text \<open>
  The exceptions the handler tells apart (\<^verbatim>\<open>UnicodeError\<close>,
  \<^verbatim>\<open>KeyboardInterrupt\<close>, \<^verbatim>\<open>SystemExit\<close>) and those the modelled
  runtime raises (\<^verbatim>\<open>TypeError\<close> and \<^verbatim>\<open>ValueError\<close> from the
  \<^verbatim>\<open>%\<close> operator, \<^verbatim>\<open>KeyError\<close> from a dictionary). \<open>IOError\<close> stands
  for any other failure of the stream.
\<close>

datatype exn =
  KeyboardInterrupt | SystemExit | UnicodeError | TypeError | ValueError | KeyError | IOError

abbreviation CR :: char where "CR \<equiv> CHR 0x0D"

abbreviation LF :: char where "LF \<equiv> CHR 0x0A"

abbreviation SP :: char where "SP \<equiv> CHR 0x20"

text \<open>Python's \<^verbatim>\<open>len\<close>: an integer.\<close>

abbreviation len :: "'a list \<Rightarrow> int" where "len xs \<equiv> int (length xs)"

subsection \<open>\<^verbatim>\<open>str\<close> of an integer\<close>

definition digit_char :: "nat \<Rightarrow> char" where
  "digit_char d = ''0123456789'' ! d"

fun str_nat :: "nat \<Rightarrow> string" where
  "str_nat n = (if n < 10 then [digit_char n] else str_nat (n div 10) @ [digit_char (n mod 10)])"

definition str :: "int \<Rightarrow> string" where
  "str i = (if i < 0 then CHR ''-'' # str_nat (nat (- i)) else str_nat (nat i))"

subsection \<open>The \<^verbatim>\<open>%\<close> operator on a format string and one string argument\<close>

text \<open>
  \<^verbatim>\<open>fmt % data\<close> with \<^verbatim>\<open>data\<close> a string (not a tuple, not a mapping), as
  CPython 2 evaluates it. A conversion specification is
  \<^verbatim>\<open>%[flags][width][.precision][length]type\<close>. The flags are the characters
  \<^verbatim>\<open>-+ #0\<close>; of them only \<^verbatim>\<open>-\<close> (left-justify) changes how a string is
  laid out. A format that ends inside a specification raises ValueError
  (incomplete format).
\<close>

definition is_flag :: "char \<Rightarrow> bool" where
  "is_flag c = (c \<in> set ''-+ #0'')"

definition is_digit :: "char \<Rightarrow> bool" where
  "is_digit c = (c \<in> set ''0123456789'')"

definition digit_val :: "char \<Rightarrow> nat" where
  "digit_val c = of_char c - 48"

definition dec :: "string \<Rightarrow> nat" where
  "dec ds = foldl (\<lambda>n c. 10 * n + digit_val c) 0 ds"

text \<open>
  \<open>parse_spec\<close> reads what follows a \<^verbatim>\<open>%\<close>: it returns whether the
  \<^verbatim>\<open>-\<close> flag is set, the width, the precision, the conversion type and the rest of
  the format, or None when the format ends first.
\<close>

definition read_precision :: "string \<Rightarrow> nat option \<times> string" where
  "read_precision cs =
     (case cs of [] \<Rightarrow> (None, [])
      | c # r \<Rightarrow>
          if c = CHR ''.'' then (Some (dec (takeWhile is_digit r)), dropWhile is_digit r)
          else (None, cs))"

definition skip_length :: "string \<Rightarrow> string" where
  "skip_length cs = (case cs of [] \<Rightarrow> [] | c # r \<Rightarrow> if c \<in> set ''hlL'' then r else cs)"

definition parse_spec :: "string \<Rightarrow> (bool \<times> nat \<times> nat option \<times> char \<times> string) option" where
  "parse_spec cs =
     (let fl = takeWhile is_flag cs;
          r1 = dropWhile is_flag cs;
          w = dec (takeWhile is_digit r1);
          r2 = dropWhile is_digit r1;
          (p, r3) = read_precision r2
      in case skip_length r3 of [] \<Rightarrow> None
         | c # r \<Rightarrow> Some (CHR ''-'' \<in> set fl, w, p, c, r))"

text \<open>Padding with spaces to a width: on the right with the \<^verbatim>\<open>-\<close> flag.\<close>

definition pad :: "bool \<Rightarrow> nat \<Rightarrow> string \<Rightarrow> string" where
  "pad lj w s =
     (if lj then s @ replicate (w - length s) SP else replicate (w - length s) SP @ s)"

definition prepend :: "string \<Rightarrow> exn + string \<Rightarrow> exn + string" where
  "prepend s r = (case r of Inl x \<Rightarrow> Inl x | Inr t \<Rightarrow> Inr (s @ t))"

text \<open>
  \<open>py_format_from fmt arg\<close> formats \<open>fmt\<close> from left to right; \<open>arg\<close> is the
  argument while no conversion has used it. \<^verbatim>\<open>%%\<close> uses no argument. Every other
  conversion asks for the argument first and raises TypeError when it is used up (not
  enough arguments); at the end an unused argument raises TypeError (not all arguments
  converted). With the argument at hand the model covers the type \<^verbatim>\<open>s\<close>; the
  other types raise here (as the numeric types do in Python on a string; \<^verbatim>\<open>r\<close>
  and \<^verbatim>\<open>c\<close> would not), a case the handler's formats never reach, since they
  start with their one \<^verbatim>\<open>s\<close> conversion.
\<close>

function py_format_from :: "string \<Rightarrow> string option \<Rightarrow> exn + string" where
  "py_format_from [] arg = (case arg of None \<Rightarrow> Inr [] | Some a \<Rightarrow> Inl TypeError)"
| "py_format_from (c # cs) arg =
     (if c \<noteq> CHR ''%'' then prepend [c] (py_format_from cs arg)
      else case parse_spec cs of
        None \<Rightarrow> Inl ValueError
      | Some (lj, w, p, conv, rest) \<Rightarrow>
          if conv = CHR ''%'' then prepend (pad lj w ''%'') (py_format_from rest arg)
          else (case arg of
            None \<Rightarrow> Inl TypeError
          | Some a \<Rightarrow>
              if conv = CHR ''s''
              then prepend (pad lj w (case p of None \<Rightarrow> a | Some k \<Rightarrow> take k a))
                     (py_format_from rest None)
              else if conv \<in> set ''diouxXeEfFgGcr'' then Inl TypeError
              else Inl ValueError))"
  by pat_completeness auto
termination
proof -
  have key: "length rest < Suc (length cs)"
    if ps: "parse_spec cs = Some (lj, w, p, conv, rest)" for cs lj w p conv rest
  proof -
    have r1: "length (dropWhile is_flag cs) \<le> length cs"
      by (rule length_dropWhile_le)
    define r2s where "r2s = dropWhile is_digit (dropWhile is_flag cs)"
    have r2: "length r2s \<le> length (dropWhile is_flag cs)"
      unfolding r2s_def by (rule length_dropWhile_le)
    have r3: "length (snd (read_precision r2s)) \<le> length r2s"
    proof (cases r2s)
      case Nil
      then show ?thesis by (simp add: read_precision_def)
    next
      case (Cons d r)
      have "length (dropWhile is_digit r) \<le> length r" by (rule length_dropWhile_le)
      with Cons show ?thesis by (simp add: read_precision_def)
    qed
    have r4: "length (skip_length (snd (read_precision r2s))) \<le> length (snd (read_precision r2s))"
      by (simp add: skip_length_def split: list.split)
    from ps have "skip_length (snd (read_precision r2s)) = conv # rest"
      by (simp add: parse_spec_def Let_def r2s_def split: prod.splits list.splits)
    with r4 r3 r2 r1 show ?thesis
      by simp
  qed
  show ?thesis
    by (relation "measure (\<lambda>(fmt, arg). length fmt)") (auto dest: key)
qed

definition py_format :: "string \<Rightarrow> string \<Rightarrow> exn + string" where
  "py_format fmt data = py_format_from fmt (Some data)"

subsection \<open>\<^verbatim>\<open>rstrip\<close>, \<^verbatim>\<open>split\<close> and slices\<close>

text \<open>
  \<^verbatim>\<open>data.rstrip()\<close> removes the trailing whitespace of a byte string: space, tab,
  line feed, vertical tab, form feed and carriage return.
\<close>

definition is_space :: "char \<Rightarrow> bool" where
  "is_space c = (c \<in> {CHR 0x20, CHR 0x09, CHR 0x0A, CHR 0x0B, CHR 0x0C, CHR 0x0D})"

definition rstrip :: "string \<Rightarrow> string" where
  "rstrip s = rev (dropWhile is_space (rev s))"

text \<open>
  \<^verbatim>\<open>s.split('\n')\<close>: the pieces between line feeds; never an empty list
  (the empty string splits into one empty piece).
\<close>

fun split_lines :: "string \<Rightarrow> string list" where
  "split_lines [] = [[]]"
| "split_lines (c # cs) =
     (if c = LF then [] # split_lines cs
      else (case split_lines cs of [] \<Rightarrow> [[c]] | l # ls \<Rightarrow> (c # l) # ls))"

text \<open>
  The slice \<^verbatim>\<open>s[:k]\<close>: the first \<open>k\<close> characters, and for a negative \<open>k\<close> all
  but the last \<open>-k\<close>.
\<close>

definition slice_to :: "int \<Rightarrow> string \<Rightarrow> string" where
  "slice_to k s = (if k < 0 then take (nat (len s + k)) s else take (nat k) s)"

subsection \<open>The handler, its stream and its environment\<close>

text \<open>
  A log record as far as the handler reads it: its level; the message stands for all the
  formatter reads.
\<close>

record log_record =
  rlevelno :: int
  rmsg :: string

text \<open>The calls the handler makes on its stream.\<close>

datatype call = Write string | Flush

text \<open>
  The handler object: \<^verbatim>\<open>self.levelno\<close>, \<^verbatim>\<open>self.need_cr\<close> and
  \<^verbatim>\<open>self.last\<close> (here \<open>last_line\<close>), with the stream it owns: \<open>calls\<close> are
  the calls made on the stream so far, in order, failed ones included, and \<open>out\<close> is the
  text the stream accepted. \<open>reported\<close> are the records handed to
  \<^verbatim>\<open>handleError\<close>.
\<close>

record handler =
  levelno :: int
  need_cr :: bool
  last_line :: string
  calls :: "call list"
  out :: string
  reported :: "log_record list"

text \<open>
  What the handler takes from outside the module: \<^verbatim>\<open>utils.term.width\<close>, the
  stream's reaction to a call (None: accepted; it may depend on the calls before),
  \<^verbatim>\<open>data.encode("UTF-8")\<close> and the formatter \<^verbatim>\<open>self.format(record)\<close>.
\<close>

record env =
  term_width :: int
  raises :: "call list \<Rightarrow> call \<Rightarrow> exn option"
  encode :: "string \<Rightarrow> exn + string"
  format :: "log_record \<Rightarrow> exn + string"

text \<open>
  \<^verbatim>\<open>__init__\<close>: the level is an integer or a name looked up in
  \<^verbatim>\<open>logging._levelNames\<close> (a KeyError when it is missing).
\<close>

datatype level_arg = LevelNo int | LevelName string

definition init :: "(string \<Rightarrow> int option) \<Rightarrow> level_arg \<Rightarrow> exn + handler" where
  "init levelNames level =
     (case (case level of
              LevelNo n \<Rightarrow> Inr n
            | LevelName s \<Rightarrow> (case levelNames s of None \<Rightarrow> Inl KeyError | Some n \<Rightarrow> Inr n)) of
        Inl x \<Rightarrow> Inl x
      | Inr n \<Rightarrow>
          Inr \<lparr>levelno = n, need_cr = False, last_line = [], calls = [], out = [],
               reported = []\<rparr>)"

text \<open>The levels of the logging module.\<close>

definition DEBUG :: int where "DEBUG = 10"

definition WARNING :: int where "WARNING = 30"

text \<open>
  One call on the stream. A result is the exception raised, if any, with the handler as
  the call leaves it.
\<close>

definition stream_call :: "env \<Rightarrow> call \<Rightarrow> handler \<Rightarrow> exn option \<times> handler" where
  "stream_call e c h =
     (case raises e (calls h) c of
        Some x \<Rightarrow> (Some x, h\<lparr>calls := calls h @ [c]\<rparr>)
      | None \<Rightarrow>
          (None, h\<lparr>calls := calls h @ [c],
                    out := out h @ (case c of Write s \<Rightarrow> s | Flush \<Rightarrow> [])\<rparr>))"

text \<open>\<^verbatim>\<open>self.stream.write(fmt % (data))\<close>: the format is evaluated first.\<close>

definition stream_write_fmt :: "env \<Rightarrow> string \<Rightarrow> string \<Rightarrow> handler \<Rightarrow> exn option \<times> handler" where
  "stream_write_fmt e fmt data h =
     (case py_format fmt data of
        Inl x \<Rightarrow> (Some x, h)
      | Inr p \<Rightarrow> stream_call e (Write p) h)"

text \<open>
  The block both write paths end in:
  \<^verbatim>\<open>
  try:
      self.stream.write(fmt % (data))
  except UnicodeError:
      self.stream.write(fmt % (data.encode("UTF-8")))
  \<close>
\<close>

definition write_or_encode :: "env \<Rightarrow> string \<Rightarrow> string \<Rightarrow> handler \<Rightarrow> exn option \<times> handler" where
  "write_or_encode e fmt data h =
     (case stream_write_fmt e fmt data h of
        (Some x, h1) \<Rightarrow>
          if x = UnicodeError
          then (case encode e data of
                  Inl y \<Rightarrow> (Some y, h1)
                | Inr d \<Rightarrow> stream_write_fmt e fmt d h1)
          else (Some x, h1)
      | (None, h1) \<Rightarrow> (None, h1))"

subsection \<open>\<^verbatim>\<open>close\<close>\<close>

text \<open>
  \<^verbatim>\<open>
  def close(self):
      if self.need_cr:
          self.stream.write("\n")
          self.need_cr = False
      self.parent.close(self)
  \<close>
  The inherited \<^verbatim>\<open>close\<close> of the logging module makes no call on the stream.
\<close>

definition close :: "env \<Rightarrow> handler \<Rightarrow> exn option \<times> handler" where
  "close e h =
     (if need_cr h
      then (case stream_call e (Write [LF]) h of
              (Some x, h1) \<Rightarrow> (Some x, h1)
            | (None, h1) \<Rightarrow> (None, h1\<lparr>need_cr := False\<rparr>))
      else (None, h))"

subsection \<open>\<^verbatim>\<open>write\<close>: the permanent write\<close>

text \<open>
  \<^verbatim>\<open>
  def write(self, data):
      if self.need_cr:
          width = max(min(utils.term.width, len(self.last)), len(data))
          fmt = "\r%-" + str(width) + "s\n" + self.last
      else:
          fmt = "%s\n"
      try:
          self.stream.write(fmt % (data))
      except UnicodeError:
          self.stream.write(fmt % (data.encode("UTF-8")))
  \<close>
  The last transient line is made part of the format string itself.
\<close>

definition write_width :: "env \<Rightarrow> string \<Rightarrow> handler \<Rightarrow> int" where
  "write_width e data h = max (min (term_width e) (len (last_line h))) (len data)"

definition write_fmt :: "env \<Rightarrow> string \<Rightarrow> handler \<Rightarrow> string" where
  "write_fmt e data h =
     (if need_cr h
      then [CR] @ ''%-'' @ str (write_width e data h) @ ''s'' @ [LF] @ last_line h
      else ''%s'' @ [LF])"

definition write_permanent :: "env \<Rightarrow> string \<Rightarrow> handler \<Rightarrow> exn option \<times> handler" where
  "write_permanent e data h = write_or_encode e (write_fmt e data h) data h"

subsection \<open>\<^verbatim>\<open>transient_write\<close>\<close>

text \<open>
  \<^verbatim>\<open>
  def transient_write(self, data):
      if self.need_cr:
          self.stream.write('\r')
      else:
          self.need_cr = True
      width = utils.term.width
      for line in data.rstrip().split('\n'):
          if line:
              if len(line) > width:
                  line = line[:width - 3] + '...'
              line_width = max(min(width, len(self.last)), len(line))
              fmt = "%-" + str(line_width) + "s"
              self.last = line
              try:
                  self.stream.write(fmt % (line))
              except UnicodeError:
                  self.stream.write(fmt % (line.encode("UTF-8")))
          else:
              self.stream.write('\r')
              self.stream.flush()
  \<close>
\<close>

definition truncate_line :: "int \<Rightarrow> string \<Rightarrow> string" where
  "truncate_line width line =
     (if len line > width then slice_to (width - 3) line @ ''...'' else line)"

definition line_width :: "int \<Rightarrow> string \<Rightarrow> handler \<Rightarrow> int" where
  "line_width width line h = max (min width (len (last_line h))) (len line)"

text \<open>The body of the loop, for one line.\<close>

definition transient_line :: "env \<Rightarrow> int \<Rightarrow> string \<Rightarrow> handler \<Rightarrow> exn option \<times> handler" where
  "transient_line e width line0 h =
     (if line0 \<noteq> []
      then (let line = truncate_line width line0;
                fmt = ''%-'' @ str (line_width width line h) @ ''s''
            in write_or_encode e fmt line (h\<lparr>last_line := line\<rparr>))
      else (case stream_call e (Write [CR]) h of
              (Some x, h1) \<Rightarrow> (Some x, h1)
            | (None, h1) \<Rightarrow> stream_call e Flush h1))"

text \<open>The loop: an exception ends it.\<close>

fun transient_lines :: "env \<Rightarrow> int \<Rightarrow> string list \<Rightarrow> handler \<Rightarrow> exn option \<times> handler" where
  "transient_lines e width [] h = (None, h)"
| "transient_lines e width (line # lines) h =
     (case transient_line e width line h of
        (Some x, h1) \<Rightarrow> (Some x, h1)
      | (None, h1) \<Rightarrow> transient_lines e width lines h1)"

definition transient_write :: "env \<Rightarrow> string \<Rightarrow> handler \<Rightarrow> exn option \<times> handler" where
  "transient_write e data h =
     (case (if need_cr h then stream_call e (Write [CR]) h
            else (None, h\<lparr>need_cr := True\<rparr>)) of
        (Some x, h1) \<Rightarrow> (Some x, h1)
      | (None, h1) \<Rightarrow> transient_lines e (term_width e) (split_lines (rstrip data)) h1)"

subsection \<open>\<^verbatim>\<open>emit\<close>\<close>

text \<open>
  \<^verbatim>\<open>
  def emit(self, record):
      try:
          msg = self.format(record)
          if record.levelno >= self.levelno:
              self.write(msg)
          else:
              self.transient_write(msg)
      except (KeyboardInterrupt, SystemExit):
          raise
      except:
          self.handleError(record)
  \<close>
  \<open>emit_body\<close> is the \<^verbatim>\<open>try\<close> block. \<^verbatim>\<open>handleError\<close> belongs to the
  logging module: the model records that it was called with the record.
\<close>

definition emit_body :: "env \<Rightarrow> log_record \<Rightarrow> handler \<Rightarrow> exn option \<times> handler" where
  "emit_body e r h =
     (case format e r of
        Inl x \<Rightarrow> (Some x, h)
      | Inr msg \<Rightarrow>
          if rlevelno r \<ge> levelno h then write_permanent e msg h
          else transient_write e msg h)"

definition handleError :: "log_record \<Rightarrow> handler \<Rightarrow> handler" where
  "handleError r h = h\<lparr>reported := reported h @ [r]\<rparr>"

definition emit :: "env \<Rightarrow> log_record \<Rightarrow> handler \<Rightarrow> exn option \<times> handler" where
  "emit e r h =
     (case emit_body e r h of
        (Some x, h1) \<Rightarrow>
          if x = KeyboardInterrupt \<or> x = SystemExit then (Some x, h1)
          else (None, handleError r h1)
      | (None, h1) \<Rightarrow> (None, h1))"

text \<open>A run of records through \<^verbatim>\<open>emit\<close>, ended by an exception that leaves it.\<close>

fun emit_all :: "env \<Rightarrow> log_record list \<Rightarrow> handler \<Rightarrow> exn option \<times> handler" where
  "emit_all e [] h = (None, h)"
| "emit_all e (r # rs) h =
     (case emit e r h of
        (Some x, h1) \<Rightarrow> (Some x, h1)
      | (None, h1) \<Rightarrow> emit_all e rs h1)"

subsection \<open>What a terminal shows\<close>

text \<open>
  The visible content of a terminal that receives the stream's text, read as the
  specification reads it: a carriage return moves the cursor to column 0 of the same
  row, a line feed ends the row and starts the next one at column 0, and every other
  character is put at the cursor, over what was there, and moves the cursor one column
  to the right. \<open>rows_done\<close> are the rows above the cursor's row.
\<close>

record screen =
  rows_done :: "string list"
  row :: string
  col :: nat

definition blank :: screen where
  "blank = \<lparr>rows_done = [], row = [], col = 0\<rparr>"

definition put_at :: "nat \<Rightarrow> char \<Rightarrow> string \<Rightarrow> string" where
  "put_at i c r =
     (if i < length r then r[i := c] else r @ replicate (i - length r) SP @ [c])"

definition put_char :: "screen \<Rightarrow> char \<Rightarrow> screen" where
  "put_char t c =
     (if c = CR then t\<lparr>col := 0\<rparr>
      else if c = LF then \<lparr>rows_done = rows_done t @ [row t], row = [], col = 0\<rparr>
      else \<lparr>rows_done = rows_done t, row = put_at (col t) c (row t), col = Suc (col t)\<rparr>)"

definition display :: "screen \<Rightarrow> string \<Rightarrow> screen" where
  "display t s = foldl put_char t s"

subsection \<open>Runs, handlers and environments of the statements\<close>

text \<open>A run of transient writes, ended by an exception.\<close>

fun transient_run :: "env \<Rightarrow> string list \<Rightarrow> handler \<Rightarrow> exn option \<times> handler" where
  "transient_run e [] h = (None, h)"
| "transient_run e (m # ms) h =
     (case transient_write e m h of
        (Some x, h1) \<Rightarrow> (Some x, h1)
      | (None, h1) \<Rightarrow> transient_run e ms h1)"

text \<open>The handler \<^verbatim>\<open>TransientStreamHandler()\<close> builds: level WARNING, nothing written.\<close>

definition fresh :: handler where
  "fresh = \<lparr>levelno = WARNING, need_cr = False, last_line = [], calls = [], out = [],
            reported = []\<rparr>"

text \<open>A stream that accepts every call.\<close>

definition accepting :: "env \<Rightarrow> bool" where
  "accepting e = (raises e = (\<lambda>cs c. None))"

text \<open>
  A terminal of the given width behind a stream that accepts every call, with a
  formatter that returns the record's message.
\<close>

definition quiet_env :: "int \<Rightarrow> env" where
  "quiet_env w =
     \<lparr>term_width = w, raises = (\<lambda>cs c. None), encode = (\<lambda>s. Inr s),
      format = (\<lambda>r. Inr (rmsg r))\<rparr>"

text \<open>
  A stream that encodes what it is given, as a \<^verbatim>\<open>codecs\<close> writer does: on a byte
  string with a byte outside ASCII it raises a UnicodeError, and so does
  \<^verbatim>\<open>encode("UTF-8")\<close> on that byte string.
\<close>

definition ascii_only :: "string \<Rightarrow> bool" where
  "ascii_only s = list_all (\<lambda>c. (of_char c :: nat) < 128) s"

definition codec_env :: "int \<Rightarrow> env" where
  "codec_env w =
     \<lparr>term_width = w,
      raises = (\<lambda>cs c. case c of
                   Write s \<Rightarrow> if ascii_only s then None else Some UnicodeError
                 | Flush \<Rightarrow> None),
      encode = (\<lambda>s. if ascii_only s then Inr s else Inl UnicodeError),
      format = (\<lambda>r. Inr (rmsg r))\<rparr>"

text \<open>
  A message that is one line of text on the terminal: stripped of trailing whitespace
  it is not empty and holds no line feed and no carriage return.
\<close>

definition one_line :: "string \<Rightarrow> bool" where
  "one_line m = (rstrip m \<noteq> [] \<and> LF \<notin> set (rstrip m) \<and> CR \<notin> set (rstrip m))"

text \<open>
  The terminal shows the last transient line and nothing else: it got the handler's text
  from a blank screen, no row is finished, the cursor's row holds the last transient line
  followed by spaces only, that line fits the width, and the cursor is at column 0 unless
  a transient line is pending.
\<close>

definition shows_last :: "int \<Rightarrow> handler \<Rightarrow> bool" where
  "shows_last w h =
     (let t = display blank (out h)
      in rows_done t = [] \<and>
         row t = last_line h @ replicate (length (row t) - length (last_line h)) SP \<and>
         len (last_line h) \<le> w \<and>
         (need_cr h \<or> col t = 0))"

text \<open>
  The cursor is where the handler takes it to be: at column 0 unless a transient line
  is pending.
\<close>

definition cursor_ok :: "handler \<Rightarrow> bool" where
  "cursor_ok h = (need_cr h \<or> col (display blank (out h)) = 0)"

text \<open>
  The exception raised by the last call made on the stream between two states of the
  handler: None when no call was made or the last one was accepted.
\<close>

definition last_raised :: "env \<Rightarrow> handler \<Rightarrow> handler \<Rightarrow> exn option" where
  "last_raised e h h' =
     (if length (calls h') \<le> length (calls h) then None
      else raises e (butlast (calls h')) (last (calls h')))"

text \<open>
  How the outcome of a method follows the stream: the calls only grow, no record is
  reported, a normal return means the last call was accepted, an exception other than
  UnicodeError raised by the last call is the outcome, and after a UnicodeError of the
  last call the outcome is an exception: that one, one of the \<^verbatim>\<open>%\<close> operator, or
  one that \<^verbatim>\<open>encode\<close> raised.
\<close>

definition traced :: "env \<Rightarrow> handler \<Rightarrow> exn option \<times> handler \<Rightarrow> bool" where
  "traced e h rh =
     (case rh of (res, h') \<Rightarrow>
        (\<exists>new. calls h' = calls h @ new) \<and>
        reported h' = reported h \<and>
        (res = None \<longrightarrow> last_raised e h h' = None) \<and>
        (\<forall>x. last_raised e h h' = Some x \<and> x \<noteq> UnicodeError \<longrightarrow> res = Some x) \<and>
        (last_raised e h h' = Some UnicodeError \<longrightarrow>
           (\<exists>y. res = Some y \<and>
              (y = UnicodeError \<or> y = TypeError \<or> y = ValueError \<or> (\<exists>s. encode e s = Inl y)))))"

section \<open>Facts about the runtime\<close>

subsection \<open>Decimal numerals and the one-conversion formats\<close>

lemma lt10_cases: "d < 10 \<Longrightarrow> d \<in> {0, 1, 2, 3, 4, 5, 6, 7, 8, 9::nat}"
  by auto

lemma digit_val_digit_char: "d < 10 \<Longrightarrow> digit_val (digit_char d) = d"
  by (drule lt10_cases) (auto simp: digit_val_def digit_char_def)

lemma is_digit_digit_char: "d < 10 \<Longrightarrow> is_digit (digit_char d)"
  by (drule lt10_cases) (auto simp: is_digit_def digit_char_def)

lemma is_flag_digit_char: "0 < d \<Longrightarrow> d < 10 \<Longrightarrow> \<not> is_flag (digit_char d)"
  by (drule lt10_cases) (auto simp: is_flag_def digit_char_def)

declare str_nat.simps [simp del]

lemma dec_snoc: "dec (ds @ [c]) = 10 * dec ds + digit_val c"
  by (simp add: dec_def)

lemma dec_str_nat: "dec (str_nat n) = n"
proof (induction n rule: str_nat.induct)
  case (1 n)
  show ?case
  proof (cases "n < 10")
    case True
    then show ?thesis
      by (subst str_nat.simps) (simp add: dec_def digit_val_digit_char)
  next
    case False
    with 1 show ?thesis
      by (subst str_nat.simps) (simp add: dec_snoc digit_val_digit_char)
  qed
qed

lemma digits_str_nat: "list_all is_digit (str_nat n)"
proof (induction n rule: str_nat.induct)
  case (1 n)
  show ?case
  proof (cases "n < 10")
    case True
    then show ?thesis
      by (subst str_nat.simps) (simp add: is_digit_digit_char)
  next
    case False
    with 1 show ?thesis
      by (subst str_nat.simps) (simp add: is_digit_digit_char)
  qed
qed

lemma str_nat_head: "0 < n \<Longrightarrow> \<exists>d ds. str_nat n = d # ds \<and> \<not> is_flag d"
proof (induction n rule: str_nat.induct)
  case (1 n)
  show ?case
  proof (cases "n < 10")
    case True
    with 1(2) show ?thesis
      by (subst str_nat.simps) (simp add: is_flag_digit_char)
  next
    case False
    then have "0 < n div 10" by simp
    with 1(1) False obtain d ds where "str_nat (n div 10) = d # ds" "\<not> is_flag d"
      by blast
    with False show ?thesis
      by (subst str_nat.simps) simp
  qed
qed

lemma takeWhile_digits: "list_all is_digit ds \<Longrightarrow> \<not> is_digit c \<Longrightarrow> takeWhile is_digit (ds @ c # r) = ds"
  by (induction ds) auto

lemma dropWhile_digits: "list_all is_digit ds \<Longrightarrow> \<not> is_digit c \<Longrightarrow> dropWhile is_digit (ds @ c # r) = c # r"
  by (induction ds) auto

lemma parse_spec_ljust:
  "parse_spec (CHR ''-'' # str_nat n @ CHR ''s'' # post) = Some (True, n, None, CHR ''s'', post)"
proof (cases "n = 0")
  case True
  have "str_nat 0 = ''0''" by (subst str_nat.simps) (simp add: digit_char_def)
  with True show ?thesis
    by (simp add: parse_spec_def is_flag_def is_digit_def dec_def read_precision_def skip_length_def)
next
  case False
  then obtain d ds where s: "str_nat n = d # ds" and d: "\<not> is_flag d"
    using str_nat_head by blast
  have nd: "\<not> is_digit (CHR ''s'')" by (simp add: is_digit_def)
  have fl: "takeWhile is_flag (CHR ''-'' # str_nat n @ CHR ''s'' # post) = ''-''"
    using s d by (simp add: is_flag_def)
  have r1: "dropWhile is_flag (CHR ''-'' # str_nat n @ CHR ''s'' # post) = str_nat n @ CHR ''s'' # post"
    using s d by (simp add: is_flag_def)
  have w: "takeWhile is_digit (str_nat n @ CHR ''s'' # post) = str_nat n"
    by (rule takeWhile_digits [OF digits_str_nat nd])
  have r2: "dropWhile is_digit (str_nat n @ CHR ''s'' # post) = CHR ''s'' # post"
    by (rule dropWhile_digits [OF digits_str_nat nd])
  show ?thesis
    by (simp add: parse_spec_def Let_def fl r1 w r2 dec_str_nat read_precision_def skip_length_def
          del: takeWhile.simps dropWhile.simps)
qed

lemma py_format_from_text:
  "CHR ''%'' \<notin> set t \<Longrightarrow> py_format_from (t @ rest) arg = prepend t (py_format_from rest arg)"
  by (induction t) (auto simp: prepend_def split: sum.splits)

lemma py_format_from_tail: "CHR ''%'' \<notin> set t \<Longrightarrow> py_format_from t None = Inr t"
  by (induction t) (auto simp: prepend_def)

lemma py_format_ljust:
  assumes "CHR ''%'' \<notin> set pre" "CHR ''%'' \<notin> set post" "0 \<le> n"
  shows "py_format (pre @ ''%-'' @ str n @ ''s'' @ post) data = Inr (pre @ pad True (nat n) data @ post)"
proof -
  have "str n = str_nat (nat n)" using assms(3) by (simp add: str_def)
  then have "py_format_from (''%-'' @ str n @ ''s'' @ post) (Some data) = Inr (pad True (nat n) data @ post)"
    using assms(2) by (simp add: parse_spec_ljust py_format_from_tail prepend_def)
  then show ?thesis
    using assms(1) by (simp add: py_format_def py_format_from_text prepend_def)
qed

lemma py_format_s: "py_format [CHR ''%'', CHR ''s'', LF] data = Inr (data @ [LF])"
  by (simp add: py_format_def parse_spec_def is_flag_def is_digit_def dec_def read_precision_def skip_length_def prepend_def pad_def)

subsection \<open>The exceptions of the \<^verbatim>\<open>%\<close> operator\<close>

lemma prepend_Inl: "prepend s r = Inl x \<longleftrightarrow> r = Inl x"
  by (cases r) (simp_all add: prepend_def)

lemma py_format_from_exn:
  "py_format_from fmt arg = Inl x \<Longrightarrow> x = TypeError \<or> x = ValueError"
  by (induction fmt arg rule: py_format_from.induct)
     (auto simp: prepend_Inl split: if_splits option.splits prod.splits)

lemma py_format_exn: "py_format fmt data = Inl x \<Longrightarrow> x = TypeError \<or> x = ValueError"
  unfolding py_format_def by (rule py_format_from_exn)

lemma prepend_isl: "isl (prepend s r) = isl r"
  by (cases r) (simp_all add: prepend_def)

lemma py_format_from_isl:
  "(arg = None) = (arg' = None) \<Longrightarrow>
   isl (py_format_from fmt arg) = isl (py_format_from fmt arg')"
proof (induction fmt arg arbitrary: arg' rule: py_format_from.induct)
  case (1 arg)
  then show ?case by (cases arg; cases arg') simp_all
next
  case (2 c cs arg)
  show ?case
  proof (cases "c \<noteq> CHR ''%''")
    case True
    with 2 show ?thesis by (simp add: prepend_isl)
  next
    case False
    then have c: "c = CHR ''%''" by simp
    show ?thesis
    proof (cases "parse_spec cs")
      case None
      with c show ?thesis by simp
    next
      case (Some sp)
      obtain lj w p conv rest where sp: "sp = (lj, w, p, conv, rest)" by (cases sp) auto
      show ?thesis
      proof (cases "conv = CHR ''%''")
        case True
        from "2.IH"(2) [OF _ Some [unfolded sp] refl refl refl refl True "2.prems"] c
        show ?thesis using c Some sp True by (simp add: prepend_isl)
      next
        case False
        show ?thesis
        proof (cases arg)
          case None
          with "2.prems" have "arg' = None" by simp
          with None c Some sp False show ?thesis by simp
        next
          case (Some a)
          with "2.prems" obtain a' where a': "arg' = Some a'" by (cases arg') auto
          from c \<open>parse_spec cs = Some sp\<close> sp False Some a' show ?thesis
            by (simp add: prepend_isl)
        qed
      qed
    qed
  qed
qed

lemma py_format_same_outcome:
  assumes "py_format fmt data = Inr p"
  shows "\<exists>p'. py_format fmt d = Inr p'"
proof -
  have "isl (py_format_from fmt (Some d)) = isl (py_format_from fmt (Some data))"
    by (rule py_format_from_isl) simp
  with assms show ?thesis
    by (cases "py_format_from fmt (Some d)") (simp_all add: py_format_def)
qed

subsection \<open>What a call on the stream leaves unchanged\<close>

lemma init_default: "init levelNames (LevelNo WARNING) = Inr fresh"
  by (simp add: init_def fresh_def)

lemma stream_call_frame:
  "last_line (snd (stream_call e c h)) = last_line h"
  "need_cr (snd (stream_call e c h)) = need_cr h"
  "levelno (snd (stream_call e c h)) = levelno h"
  "reported (snd (stream_call e c h)) = reported h"
  by (simp_all add: stream_call_def split: option.split)

lemma stream_write_fmt_frame:
  "last_line (snd (stream_write_fmt e fmt d h)) = last_line h"
  "need_cr (snd (stream_write_fmt e fmt d h)) = need_cr h"
  "levelno (snd (stream_write_fmt e fmt d h)) = levelno h"
  "reported (snd (stream_write_fmt e fmt d h)) = reported h"
  by (simp_all add: stream_write_fmt_def stream_call_frame split: sum.split)

lemma write_or_encode_frame:
  "last_line (snd (write_or_encode e fmt d h)) = last_line h"
  "need_cr (snd (write_or_encode e fmt d h)) = need_cr h"
  "levelno (snd (write_or_encode e fmt d h)) = levelno h"
  "reported (snd (write_or_encode e fmt d h)) = reported h"
proof -
  obtain x h1 where r: "stream_write_fmt e fmt d h = (x, h1)"
    by (cases "stream_write_fmt e fmt d h")
  have f: "last_line h1 = last_line h" "need_cr h1 = need_cr h" "levelno h1 = levelno h"
    "reported h1 = reported h"
    using stream_write_fmt_frame [of e fmt d h] by (simp_all add: r)
  show "last_line (snd (write_or_encode e fmt d h)) = last_line h"
    "need_cr (snd (write_or_encode e fmt d h)) = need_cr h"
    "levelno (snd (write_or_encode e fmt d h)) = levelno h"
    "reported (snd (write_or_encode e fmt d h)) = reported h"
    by (simp_all add: write_or_encode_def r f stream_write_fmt_frame split: option.split sum.split)
qed

subsection \<open>The write paths on a stream that accepts\<close>

lemma write_or_encode_accept:
  assumes "py_format fmt data = Inr p" and "raises e (calls h) (Write p) = None"
  shows "write_or_encode e fmt data h = (None, h\<lparr>calls := calls h @ [Write p], out := out h @ p\<rparr>)"
  using assms by (simp add: write_or_encode_def stream_write_fmt_def stream_call_def)

lemma write_fmt_pending:
  assumes "need_cr h" and "CHR ''%'' \<notin> set (last_line h)"
  shows "py_format (write_fmt e data h) data =
         Inr ([CR] @ pad True (nat (write_width e data h)) data @ [LF] @ last_line h)"
proof -
  have w: "0 \<le> write_width e data h" by (simp add: write_width_def)
  have "py_format ([CR] @ ''%-'' @ str (write_width e data h) @ ''s'' @ ([LF] @ last_line h)) data =
        Inr ([CR] @ pad True (nat (write_width e data h)) data @ ([LF] @ last_line h))"
    by (rule py_format_ljust) (use assms(2) w in simp_all)
  then show ?thesis using assms(1) by (simp add: write_fmt_def)
qed

lemma write_fmt_clean: "\<not> need_cr h \<Longrightarrow> py_format (write_fmt e data h) data = Inr (data @ [LF])"
  using py_format_s [of data] by (simp add: write_fmt_def)

lemma line_format:
  "py_format (''%-'' @ str (line_width width l h) @ ''s'') l =
   Inr (pad True (nat (line_width width l h)) l)"
proof -
  have w: "0 \<le> line_width width l h" by (simp add: line_width_def)
  have "py_format ([] @ ''%-'' @ str (line_width width l h) @ ''s'' @ []) l =
        Inr ([] @ pad True (nat (line_width width l h)) l @ [])"
    by (rule py_format_ljust) (use w in simp_all)
  then show ?thesis by simp
qed

lemma transient_line_accept:
  assumes "line \<noteq> []"
    and "l = truncate_line width line"
    and "p = pad True (nat (line_width width l h)) l"
    and "raises e (calls h) (Write p) = None"
  shows "transient_line e width line h =
           (None, h\<lparr>last_line := l, calls := calls h @ [Write p], out := out h @ p\<rparr>)"
proof -
  have f: "py_format (''%-'' @ str (line_width width l h) @ ''s'') l = Inr p"
    using line_format [of width l h] assms(3) by simp
  have a: "raises e (calls (h\<lparr>last_line := l\<rparr>)) (Write p) = None"
    using assms(4) by simp
  show ?thesis
    using assms(1) write_or_encode_accept [OF f a]
    by (simp add: transient_line_def Let_def assms(2) [symmetric])
qed

lemma transient_line_last:
  "line \<noteq> [] \<Longrightarrow> last_line (snd (transient_line e width line h)) = truncate_line width line"
  by (simp add: transient_line_def Let_def write_or_encode_frame)

subsection \<open>The handler's methods and the records reported\<close>

lemma split_lines_no_LF: "LF \<notin> set s \<Longrightarrow> split_lines s = [s]"
  by (induction s) auto

lemma transient_line_reported: "reported (snd (transient_line e w l h)) = reported h"
  by (simp add: transient_line_def Let_def write_or_encode_frame stream_call_def split: option.split)

lemma transient_lines_reported: "reported (snd (transient_lines e w ls h)) = reported h"
proof (induction ls arbitrary: h)
  case Nil
  show ?case by simp
next
  case (Cons l ls)
  obtain x h1 where r: "transient_line e w l h = (x, h1)" by (cases "transient_line e w l h")
  have "reported h1 = reported h" using transient_line_reported [of e w l h] by (simp add: r)
  with Cons r show ?case by (cases x) simp_all
qed

lemma transient_write_reported: "reported (snd (transient_write e data h)) = reported h"
  by (simp add: transient_write_def transient_lines_reported stream_call_def split: option.split)

lemma emit_body_reported: "reported (snd (emit_body e r h)) = reported h"
  by (simp add: emit_body_def transient_write_reported write_permanent_def write_or_encode_frame
      split: sum.split)

lemma emit_body_format_error: "format e r = Inl x \<Longrightarrow> emit_body e r h = (Some x, h)"
  by (simp add: emit_body_def)

lemma emit_never_other:
  "fst (emit e r h) = None \<or> fst (emit e r h) = Some KeyboardInterrupt \<or> fst (emit e r h) = Some SystemExit"
  by (cases "emit_body e r h") (auto simp: emit_def split: option.split)

subsection \<open>The fallback block\<close>

lemma write_or_encode_calls_bound:
  "length (calls (snd (write_or_encode e fmt data h))) \<le> length (calls h) + 2"
  by (auto simp: write_or_encode_def stream_write_fmt_def stream_call_def
      split: sum.split option.split)

lemma write_permanent_block:
  "write_permanent e data h = write_or_encode e (write_fmt e data h) data h"
  by (simp add: write_permanent_def)

lemma transient_line_block:
  "line \<noteq> [] \<Longrightarrow> l = truncate_line width line \<Longrightarrow>
   transient_line e width line h =
     write_or_encode e (''%-'' @ str (line_width width l h) @ ''s'') l (h\<lparr>last_line := l\<rparr>)"
  by (simp add: transient_line_def Let_def)

lemma write_or_encode_retry:
  assumes "py_format fmt data = Inr p" and "raises e (calls h) (Write p) = Some UnicodeError"
    and "encode e data = Inr d"
  shows "\<exists>p'. py_format fmt d = Inr p' \<and>
           calls (snd (write_or_encode e fmt data h)) = calls h @ [Write p, Write p'] \<and>
           fst (write_or_encode e fmt data h) = raises e (calls h @ [Write p]) (Write p')"
proof -
  from py_format_same_outcome [OF assms(1)] obtain p' where p': "py_format fmt d = Inr p'"
    by blast
  have first: "stream_write_fmt e fmt data h = (Some UnicodeError, h\<lparr>calls := calls h @ [Write p]\<rparr>)"
    using assms(1,2) by (simp add: stream_write_fmt_def stream_call_def)
  have "calls (snd (write_or_encode e fmt data h)) = calls h @ [Write p, Write p'] \<and>
        fst (write_or_encode e fmt data h) = raises e (calls h @ [Write p]) (Write p')"
    unfolding write_or_encode_def first
    using assms(3) p' by (simp add: stream_write_fmt_def stream_call_def split: option.split)
  with p' show ?thesis by blast
qed

lemma write_or_encode_no_retry:
  assumes "py_format fmt data = Inr p" and "raises e (calls h) (Write p) = Some x"
  shows "x = UnicodeError \<Longrightarrow> encode e data = Inl y \<Longrightarrow>
           write_or_encode e fmt data h = (Some y, h\<lparr>calls := calls h @ [Write p]\<rparr>)"
    and "x \<noteq> UnicodeError \<Longrightarrow>
           write_or_encode e fmt data h = (Some x, h\<lparr>calls := calls h @ [Write p]\<rparr>)"
  using assms by (simp_all add: write_or_encode_def stream_write_fmt_def stream_call_def)

lemma write_or_encode_format_error:
  assumes "py_format fmt data = Inl x"
  shows "write_or_encode e fmt data h = (Some x, h)"
proof -
  have "x \<noteq> UnicodeError" using py_format_exn [OF assms] by auto
  with assms show ?thesis by (simp add: write_or_encode_def stream_write_fmt_def)
qed

subsection \<open>The outcome of a method follows the last call on the stream\<close>

lemma last_raised_same: "calls h' = calls h \<Longrightarrow> last_raised e h h' = None"
  by (simp add: last_raised_def)

lemma last_raised_one: "calls h' = calls h @ [c] \<Longrightarrow> last_raised e h h' = raises e (calls h) c"
  by (simp add: last_raised_def)

lemma traced_no_call:
  "calls h' = calls h \<Longrightarrow> reported h' = reported h \<Longrightarrow> res \<noteq> None \<Longrightarrow> traced e h (res, h')"
  by (simp add: traced_def last_raised_same)

lemma traced_nothing: "traced e h (None, h)"
  by (simp add: traced_def last_raised_same)

lemma traced_stream_call: "traced e h (stream_call e c h)"
  by (cases "raises e (calls h) c") (auto simp: traced_def stream_call_def last_raised_one)

lemma last_raised_seq:
  assumes "traced e h (None, h1)" and "calls h' = calls h1 @ new"
  shows "last_raised e h h' = last_raised e h1 h'"
proof -
  from assms(1) obtain n1 where n1: "calls h1 = calls h @ n1"
    and none: "last_raised e h h1 = None"
    by (auto simp: traced_def)
  show ?thesis
  proof (cases "new = []")
    case False
    then show ?thesis using assms(2) n1 by (simp add: last_raised_def)
  next
    case True
    then have "calls h' = calls h1" using assms(2) by simp
    then have "last_raised e h h' = last_raised e h h1" "last_raised e h1 h' = None"
      by (simp_all add: last_raised_def)
    with none show ?thesis by simp
  qed
qed

lemma traced_seq:
  assumes "traced e h (None, h1)" and "traced e h1 rh"
  shows "traced e h rh"
proof -
  obtain res h' where rh: "rh = (res, h')" by (cases rh)
  from assms(2) rh obtain new where new: "calls h' = calls h1 @ new"
    by (auto simp: traced_def)
  from assms(1) obtain n1 where n1: "calls h1 = calls h @ n1" and r1: "reported h1 = reported h"
    by (auto simp: traced_def)
  have l: "last_raised e h h' = last_raised e h1 h'"
    by (rule last_raised_seq [OF assms(1) new])
  have c: "calls h' = calls h @ (n1 @ new)" using new n1 by simp
  from assms(2) have a: "traced e h1 (res, h')" by (simp add: rh)
  show ?thesis
    unfolding rh using a c r1 by (simp add: traced_def l)
qed

lemma traced_start:
  "calls h0 = calls h \<Longrightarrow> reported h0 = reported h \<Longrightarrow> traced e h0 rh \<Longrightarrow> traced e h rh"
  by (cases rh) (simp add: traced_def last_raised_def)

lemma traced_stream_write_fmt: "traced e h (stream_write_fmt e fmt d h)"
  by (cases "py_format fmt d")
     (simp_all add: stream_write_fmt_def traced_stream_call traced_no_call)

lemma traced_write_or_encode: "traced e h (write_or_encode e fmt data h)"
proof -
  obtain x h1 where f: "stream_write_fmt e fmt data h = (x, h1)"
    by (cases "stream_write_fmt e fmt data h")
  have t1: "traced e h (x, h1)" using traced_stream_write_fmt [of e h fmt data] by (simp add: f)
  show ?thesis
  proof (cases "x = Some UnicodeError")
    case False
    then have "write_or_encode e fmt data h = (x, h1)"
      by (cases x) (simp_all add: write_or_encode_def f)
    with t1 show ?thesis by simp
  next
    case True
    have fe: "py_format fmt data \<noteq> Inl UnicodeError"
      using py_format_exn [of fmt data UnicodeError] by auto
    from True f fe obtain p where p: "py_format fmt data = Inr p"
      by (cases "py_format fmt data") (auto simp: stream_write_fmt_def)
    from True f p have c1: "calls h1 = calls h @ [Write p]" and rp: "reported h1 = reported h"
      and ra: "raises e (calls h) (Write p) = Some UnicodeError"
      by (auto simp: stream_write_fmt_def stream_call_def split: option.splits)
    have l1: "last_raised e h h1 = Some UnicodeError"
      using c1 ra by (simp add: last_raised_one)
    show ?thesis
    proof (cases "encode e data")
      case (Inl y)
      then have w: "write_or_encode e fmt data h = (Some y, h1)"
        using True by (simp add: write_or_encode_def f)
      show ?thesis
        unfolding w traced_def using c1 rp l1 Inl by auto
    next
      case (Inr d)
      then have w: "write_or_encode e fmt data h = stream_write_fmt e fmt d h1"
        using True by (simp add: write_or_encode_def f)
      show ?thesis
      proof (cases "py_format fmt d")
        case (Inl z)
        then have z: "z = TypeError \<or> z = ValueError" by (rule py_format_exn)
        have "write_or_encode e fmt data h = (Some z, h1)"
          using w Inl by (simp add: stream_write_fmt_def)
        then show ?thesis
          unfolding traced_def using c1 rp l1 z by auto
      next
        case (Inr p')
        then have w2: "write_or_encode e fmt data h = stream_call e (Write p') h1"
          using w by (simp add: stream_write_fmt_def)
        obtain res h2 where s: "stream_call e (Write p') h1 = (res, h2)"
          by (cases "stream_call e (Write p') h1")
        have c2: "calls h2 = calls h @ [Write p, Write p']" and r2: "reported h2 = reported h"
          and res: "res = raises e (calls h @ [Write p]) (Write p')"
          using s c1 rp by (auto simp: stream_call_def split: option.splits)
        have l2: "last_raised e h h2 = res"
          using c2 res by (simp add: last_raised_def butlast_append)
        show ?thesis
          unfolding w2 s traced_def using c2 r2 l2 by auto
      qed
    qed
  qed
qed

lemma traced_write_permanent: "traced e h (write_permanent e data h)"
  by (simp add: write_permanent_def traced_write_or_encode)

lemma traced_transient_line: "traced e h (transient_line e w l h)"
proof (cases "l = []")
  case False
  have "traced e (h\<lparr>last_line := truncate_line w l\<rparr>)
      (write_or_encode e (''%-'' @ str (line_width w (truncate_line w l) h) @ ''s'')
         (truncate_line w l) (h\<lparr>last_line := truncate_line w l\<rparr>))"
    by (rule traced_write_or_encode)
  then have "traced e h
      (write_or_encode e (''%-'' @ str (line_width w (truncate_line w l) h) @ ''s'')
         (truncate_line w l) (h\<lparr>last_line := truncate_line w l\<rparr>))"
    by (rule traced_start [rotated 2]) simp_all
  with False show ?thesis by (simp add: transient_line_def Let_def)
next
  case True
  obtain x h1 where s: "stream_call e (Write [CR]) h = (x, h1)"
    by (cases "stream_call e (Write [CR]) h")
  have t1: "traced e h (x, h1)" using traced_stream_call [of e h "Write [CR]"] by (simp add: s)
  show ?thesis
  proof (cases x)
    case (Some y)
    with t1 True s show ?thesis by (simp add: transient_line_def)
  next
    case None
    have "traced e h (stream_call e Flush h1)"
      by (rule traced_seq [OF t1 [unfolded None] traced_stream_call])
    with None True s show ?thesis by (simp add: transient_line_def)
  qed
qed

lemma traced_transient_lines: "traced e h (transient_lines e w ls h)"
proof (induction ls arbitrary: h)
  case Nil
  show ?case by (simp add: traced_nothing)
next
  case (Cons l ls)
  obtain x h1 where s: "transient_line e w l h = (x, h1)" by (cases "transient_line e w l h")
  have t1: "traced e h (x, h1)" using traced_transient_line [of e h w l] by (simp add: s)
  show ?case
  proof (cases x)
    case (Some y)
    with t1 s show ?thesis by simp
  next
    case None
    have "traced e h (transient_lines e w ls h1)"
      by (rule traced_seq [OF t1 [unfolded None] Cons.IH])
    with None s show ?thesis by simp
  qed
qed

lemma traced_transient_write: "traced e h (transient_write e data h)"
proof (cases "need_cr h")
  case False
  have "traced e (h\<lparr>need_cr := True\<rparr>)
      (transient_lines e (term_width e) (split_lines (rstrip data)) (h\<lparr>need_cr := True\<rparr>))"
    by (rule traced_transient_lines)
  then have "traced e h
      (transient_lines e (term_width e) (split_lines (rstrip data)) (h\<lparr>need_cr := True\<rparr>))"
    by (rule traced_start [rotated 2]) simp_all
  with False show ?thesis by (simp add: transient_write_def)
next
  case True
  obtain x h1 where s: "stream_call e (Write [CR]) h = (x, h1)"
    by (cases "stream_call e (Write [CR]) h")
  have t1: "traced e h (x, h1)" using traced_stream_call [of e h "Write [CR]"] by (simp add: s)
  show ?thesis
  proof (cases x)
    case (Some y)
    with t1 True s show ?thesis by (simp add: transient_write_def)
  next
    case None
    have "traced e h (transient_lines e (term_width e) (split_lines (rstrip data)) h1)"
      by (rule traced_seq [OF t1 [unfolded None] traced_transient_lines])
    with None True s show ?thesis by (simp add: transient_write_def)
  qed
qed

lemma traced_emit_body: "traced e h (emit_body e r h)"
  by (cases "format e r")
     (simp_all add: emit_body_def traced_no_call traced_write_permanent traced_transient_write)

lemma last_raised_calls: "calls h2 = calls h1 \<Longrightarrow> last_raised e h h2 = last_raised e h h1"
  by (simp add: last_raised_def)

subsection \<open>Text on the terminal\<close>

lemma display_append: "display t (a @ b) = display (display t a) b"
  by (simp add: display_def)

lemma display_Nil: "display t [] = t"
  by (simp add: display_def)

lemma display_Cons: "display t (c # s) = display (put_char t c) s"
  by (simp add: display_def)

lemma display_CR: "display t [CR] = t\<lparr>col := 0\<rparr>"
  by (simp add: display_def put_char_def)

lemma take_put_at: "k \<le> length r \<Longrightarrow> take (Suc k) (put_at k c r) = take k r @ [c]"
  by (auto simp: put_at_def take_Suc_conv_app_nth)

lemma drop_put_at: "k \<le> length r \<Longrightarrow> drop (Suc (k + n)) (put_at k c r) = drop (Suc (k + n)) r"
  by (auto simp: put_at_def)

lemma length_put_at: "k \<le> length r \<Longrightarrow> Suc k \<le> length (put_at k c r)"
  by (auto simp: put_at_def)

lemma display_text:
  assumes "CR \<notin> set s" and "LF \<notin> set s" and "col t \<le> length (row t)"
  shows "display t s =
         \<lparr>rows_done = rows_done t,
          row = take (col t) (row t) @ s @ drop (col t + length s) (row t),
          col = col t + length s\<rparr>"
  using assms
proof (induction s arbitrary: t)
  case Nil
  then show ?case by (simp add: display_Nil)
next
  case (Cons c s)
  let ?t = "put_char t c"
  have c: "c \<noteq> CR" "c \<noteq> LF" using Cons.prems by auto
  have pt: "?t = \<lparr>rows_done = rows_done t, row = put_at (col t) c (row t), col = Suc (col t)\<rparr>"
    using c by (simp add: put_char_def)
  have le: "col ?t \<le> length (row ?t)"
    using Cons.prems(3) by (simp add: pt length_put_at)
  have "display ?t s =
         \<lparr>rows_done = rows_done ?t,
          row = take (col ?t) (row ?t) @ s @ drop (col ?t + length s) (row ?t),
          col = col ?t + length s\<rparr>"
    using Cons.prems(1,2) le by (intro Cons.IH) auto
  then show ?case
    using Cons.prems(3) by (simp add: display_Cons pt take_put_at drop_put_at)
qed

lemma display_text_col0:
  assumes "CR \<notin> set s" and "LF \<notin> set s"
  shows "display (t\<lparr>col := 0\<rparr>) s =
         \<lparr>rows_done = rows_done t, row = s @ drop (length s) (row t), col = length s\<rparr>"
  using display_text [of s "t\<lparr>col := 0\<rparr>"] assms by simp

lemma set_truncate_line: "set (truncate_line w l) \<subseteq> set l \<union> {CHR ''.''}"
  by (auto simp: truncate_line_def slice_to_def dest: in_set_takeD)

lemma set_pad: "set (pad b n s) \<subseteq> set s \<union> {SP}"
  by (auto simp: pad_def)

lemma length_truncate_line_le: "3 \<le> w \<Longrightarrow> len (truncate_line w l) \<le> w"
  by (auto simp: truncate_line_def slice_to_def)

subsection \<open>A transient write of one line, and of none\<close>

lemma transient_write_one:
  assumes "accepting e" and "rstrip m \<noteq> []" and "LF \<notin> set (rstrip m)"
    and "l = truncate_line (term_width e) (rstrip m)"
    and "p = pad True (nat (line_width (term_width e) l h)) l"
  shows "transient_write e m h =
     (None, h\<lparr>need_cr := True, last_line := l,
        calls := calls h @ (if need_cr h then [Write [CR]] else []) @ [Write p],
        out := out h @ (if need_cr h then [CR] else []) @ p\<rparr>)"
proof -
  have r: "raises e = (\<lambda>cs c. None)" using assms(1) by (simp add: accepting_def)
  have sp: "split_lines (rstrip m) = [rstrip m]" using assms(3) by (rule split_lines_no_LF)
  show ?thesis
  proof (cases "need_cr h")
    case True
    let ?h1 = "h\<lparr>calls := calls h @ [Write [CR]], out := out h @ [CR]\<rparr>"
    have p1: "p = pad True (nat (line_width (term_width e) l ?h1)) l"
      using assms(5) by (simp add: line_width_def)
    have "transient_line e (term_width e) (rstrip m) ?h1 =
        (None, ?h1\<lparr>last_line := l, calls := calls ?h1 @ [Write p], out := out ?h1 @ p\<rparr>)"
      by (rule transient_line_accept [OF assms(2) assms(4) p1]) (simp add: r)
    with True show ?thesis
      by (simp add: transient_write_def stream_call_def r sp)
  next
    case False
    let ?h1 = "h\<lparr>need_cr := True\<rparr>"
    have p1: "p = pad True (nat (line_width (term_width e) l ?h1)) l"
      using assms(5) by (simp add: line_width_def)
    have "transient_line e (term_width e) (rstrip m) ?h1 =
        (None, ?h1\<lparr>last_line := l, calls := calls ?h1 @ [Write p], out := out ?h1 @ p\<rparr>)"
      by (rule transient_line_accept [OF assms(2) assms(4) p1]) (simp add: r)
    with False show ?thesis
      by (simp add: transient_write_def sp)
  qed
qed

lemma transient_write_blank:
  assumes "accepting e" and "rstrip m = []"
  shows "transient_write e m h =
     (None, h\<lparr>need_cr := True,
        calls := calls h @ (if need_cr h then [Write [CR]] else []) @ [Write [CR], Flush],
        out := out h @ (if need_cr h then [CR] else []) @ [CR]\<rparr>)"
  using assms
  by (simp add: transient_write_def transient_line_def stream_call_def accepting_def)

subsection \<open>Transient writes keep the last line alone on the terminal\<close>

lemma shows_last_fresh: "0 \<le> w \<Longrightarrow> shows_last w fresh"
  by (simp add: shows_last_def fresh_def display_Nil blank_def)

lemma col0_update: "col t = 0 \<Longrightarrow> t\<lparr>col := 0\<rparr> = t"
  by (cases t) simp

lemma display_prefix:
  assumes "need_cr h \<or> col t = 0"
  shows "display t (if need_cr h then [CR] else []) = t\<lparr>col := 0\<rparr>"
  using assms by (auto simp: display_CR display_Nil col0_update)

lemma pad_text:
  assumes "CR \<notin> set (rstrip m)" and "LF \<notin> set (rstrip m)"
  shows "CR \<notin> set (pad True n (truncate_line w (rstrip m)))"
    and "LF \<notin> set (pad True n (truncate_line w (rstrip m)))"
  using assms set_pad [of True n "truncate_line w (rstrip m)"] set_truncate_line [of w "rstrip m"]
  by auto

lemma pad_left: "pad True n l = l @ replicate (n - length l) SP"
  by (simp add: pad_def)

lemma transient_write_keeps:
  assumes acc: "accepting e" and w3: "3 \<le> term_width e" and ol: "one_line m"
    and inv: "shows_last (term_width e) h"
  shows "fst (transient_write e m h) = None \<and>
         shows_last (term_width e) (snd (transient_write e m h)) \<and>
         need_cr (snd (transient_write e m h)) \<and>
         last_line (snd (transient_write e m h)) = truncate_line (term_width e) (rstrip m)"
proof -
  define W where "W = term_width e"
  define l where "l = truncate_line W (rstrip m)"
  define n where "n = nat (line_width W l h)"
  define p where "p = pad True n l"
  define pre where "pre = (if need_cr h then [CR] else [])"
  define t where "t = display blank (out h)"
  define h' where "h' = h\<lparr>need_cr := True, last_line := l,
        calls := calls h @ (if need_cr h then [Write [CR]] else []) @ [Write p],
        out := out h @ pre @ p\<rparr>"
  from ol have ne: "rstrip m \<noteq> []" and nlf: "LF \<notin> set (rstrip m)" and ncr: "CR \<notin> set (rstrip m)"
    by (simp_all add: one_line_def)
  have tw: "transient_write e m h = (None, h')"
    unfolding h'_def pre_def
    by (rule transient_write_one [OF acc ne nlf]) (simp_all add: l_def W_def p_def n_def)
  from inv have rd: "rows_done t = []"
    and rw: "row t = last_line h @ replicate (length (row t) - length (last_line h)) SP"
    and ll: "len (last_line h) \<le> W"
    and c0: "need_cr h \<or> col t = 0"
    by (simp_all add: shows_last_def Let_def t_def W_def)
  have t1: "display t pre = t\<lparr>col := 0\<rparr>"
    unfolding pre_def by (rule display_prefix [OF c0])
  have pcr: "CR \<notin> set p" and plf: "LF \<notin> set p"
    unfolding p_def l_def using pad_text [OF ncr nlf] by simp_all
  have t2: "display blank (out h') =
      \<lparr>rows_done = [], row = p @ drop (length p) (row t), col = length p\<rparr>"
    using display_text_col0 [OF pcr plf, of t]
    by (simp add: h'_def display_append t_def [symmetric] t1 rd)
  have lw: "line_width W l h = max (len (last_line h)) (len l)"
    using ll by (simp add: line_width_def)
  have nlast: "length (last_line h) \<le> n" and nl: "length l \<le> n"
    by (simp_all add: n_def lw)
  have pl: "p = l @ replicate (n - length l) SP"
    by (simp add: p_def pad_left)
  have lp: "length p = n" using nl by (simp add: pl)
  define k where "k = length (row t) - length (last_line h)"
  have "drop n (row t) = drop n (last_line h @ replicate k SP)"
    using rw by (simp add: k_def)
  also have "\<dots> = replicate (k - (n - length (last_line h))) SP"
    using nlast by simp
  finally have dr: "drop n (row t) = replicate (k - (n - length (last_line h))) SP" .
  have row': "p @ drop (length p) (row t) =
      l @ replicate ((n - length l) + (k - (n - length (last_line h)))) SP"
    unfolding lp dr by (simp add: pl replicate_add)
  have lenl: "len l \<le> W"
    unfolding l_def W_def by (rule length_truncate_line_le [OF w3])
  have "shows_last W h'"
    by (simp add: shows_last_def Let_def t2 row' lenl) (simp add: h'_def lenl)
  then show ?thesis
    by (simp add: tw W_def [symmetric] l_def [symmetric]) (simp add: h'_def)
qed

lemma transient_run_keeps:
  assumes "accepting e" and "3 \<le> term_width e" and "list_all one_line ms"
    and "shows_last (term_width e) h"
  shows "fst (transient_run e ms h) = None \<and>
         shows_last (term_width e) (snd (transient_run e ms h)) \<and>
         (ms \<noteq> [] \<longrightarrow>
            last_line (snd (transient_run e ms h)) = truncate_line (term_width e) (rstrip (last ms)))"
  using assms(3,4)
proof (induction ms arbitrary: h)
  case Nil
  then show ?case by simp
next
  case (Cons m ms)
  obtain x h1 where r: "transient_write e m h = (x, h1)" by (cases "transient_write e m h")
  from Cons.prems have ol: "one_line m" and rest: "list_all one_line ms" by simp_all
  from transient_write_keeps [OF assms(1,2) ol Cons.prems(2)] r
  have x: "x = None" and i1: "shows_last (term_width e) h1"
    and l1: "last_line h1 = truncate_line (term_width e) (rstrip m)"
    by simp_all
  from Cons.IH [OF rest i1] show ?case
    by (cases ms) (simp_all add: r x l1)
qed

subsection \<open>Every method keeps the cursor where the handler takes it to be\<close>

lemma cursor_ok_fresh: "cursor_ok fresh"
  by (simp add: cursor_ok_def fresh_def display_Nil blank_def)

lemma transient_line_need_cr: "need_cr (snd (transient_line e w l h)) = need_cr h"
  by (simp add: transient_line_def Let_def write_or_encode_frame stream_call_def split: option.split)

lemma transient_lines_need_cr: "need_cr (snd (transient_lines e w ls h)) = need_cr h"
proof (induction ls arbitrary: h)
  case Nil
  show ?case by simp
next
  case (Cons l ls)
  obtain x h1 where r: "transient_line e w l h = (x, h1)" by (cases "transient_line e w l h")
  have "need_cr h1 = need_cr h" using transient_line_need_cr [of e w l h] by (simp add: r)
  with Cons r show ?case by (cases x) simp_all
qed

lemma transient_write_need_cr: "need_cr (snd (transient_write e m h))"
  by (simp add: transient_write_def transient_lines_need_cr stream_call_def split: option.split)

lemma cursor_ok_transient_write: "cursor_ok (snd (transient_write e m h))"
  by (simp add: cursor_ok_def transient_write_need_cr)

lemma display_LF_col: "col (display t (s @ [LF])) = 0"
  by (simp add: display_append display_Cons display_Nil put_char_def)

lemma stream_write_fmt_clean_out:
  "out (snd (stream_write_fmt e [CHR ''%'', CHR ''s'', LF] d h)) = out h \<or>
   out (snd (stream_write_fmt e [CHR ''%'', CHR ''s'', LF] d h)) = out h @ d @ [LF]"
  by (simp add: stream_write_fmt_def py_format_s stream_call_def split: option.split)

lemma write_permanent_clean_out:
  assumes "\<not> need_cr h"
  shows "out (snd (write_permanent e data h)) = out h \<or>
         (\<exists>d. out (snd (write_permanent e data h)) = out h @ d @ [LF])"
proof -
  have f: "write_fmt e data h = [CHR ''%'', CHR ''s'', LF]" using assms by (simp add: write_fmt_def)
  obtain x h1 where r: "stream_write_fmt e [CHR ''%'', CHR ''s'', LF] data h = (x, h1)"
    by (cases "stream_write_fmt e [CHR ''%'', CHR ''s'', LF] data h")
  have o1: "out h1 = out h \<or> out h1 = out h @ data @ [LF]"
    using stream_write_fmt_clean_out [of e data h] by (simp add: r)
  show ?thesis
  proof (cases "x = Some UnicodeError")
    case False
    then have "write_permanent e data h = (x, h1)"
      by (cases x) (simp_all add: write_permanent_def write_or_encode_def f r)
    with o1 show ?thesis by auto
  next
    case True
    then have "out h1 = out h"
      using r by (auto simp: stream_write_fmt_def py_format_s stream_call_def split: option.splits)
    show ?thesis
    proof (cases "encode e data")
      case (Inl y)
      with True have "write_permanent e data h = (Some y, h1)"
        by (simp add: write_permanent_def write_or_encode_def f r)
      with \<open>out h1 = out h\<close> show ?thesis by simp
    next
      case (Inr d)
      with True have "write_permanent e data h = stream_write_fmt e [CHR ''%'', CHR ''s'', LF] d h1"
        by (simp add: write_permanent_def write_or_encode_def f r)
      with stream_write_fmt_clean_out [of e d h1] \<open>out h1 = out h\<close> show ?thesis by auto
    qed
  qed
qed

lemma cursor_ok_write_permanent:
  assumes "cursor_ok h"
  shows "cursor_ok (snd (write_permanent e data h))"
proof (cases "need_cr h")
  case True
  then show ?thesis by (simp add: cursor_ok_def write_permanent_def write_or_encode_frame)
next
  case False
  with assms have c: "col (display blank (out h)) = 0" by (simp add: cursor_ok_def)
  from write_permanent_clean_out [OF False, of e data]
  have "col (display blank (out (snd (write_permanent e data h)))) = 0"
    using c display_LF_col [of blank] by (auto simp: append_assoc [symmetric] simp del: append_assoc)
  then show ?thesis by (simp add: cursor_ok_def)
qed

lemma cursor_ok_close:
  assumes "cursor_ok h"
  shows "cursor_ok (snd (close e h))"
  using assms display_LF_col [of blank "out h"]
  by (auto simp: cursor_ok_def close_def stream_call_def split: option.split)

lemma cursor_ok_emit:
  assumes "cursor_ok h"
  shows "cursor_ok (snd (emit e r h))"
proof -
  have b: "cursor_ok (snd (emit_body e r h))"
    using assms by (simp add: emit_body_def cursor_ok_write_permanent cursor_ok_transient_write
        split: sum.split)
  obtain x h1 where eb: "emit_body e r h = (x, h1)" by (cases "emit_body e r h")
  with b have "cursor_ok h1" by simp
  then have "cursor_ok (handleError r h1)" by (simp add: cursor_ok_def handleError_def)
  with \<open>cursor_ok h1\<close> show ?thesis by (simp add: emit_def eb split: option.split)
qed

section \<open>The claims\<close>

subsection \<open>C1: a permanent write over a pending transient line\<close>

text \<open>
  C1, as the code has it: for every permanent write made while \<^verbatim>\<open>need_cr\<close> is
  true, with no \<^verbatim>\<open>%\<close> in the last transient line and a stream that accepts the
  text, the handler makes one call on the stream, writing a carriage return, the message
  left-justified and padded with spaces to exactly
  \<open>max (min terminal_width (len last_line)) (len message)\<close> columns, a line feed, and
  then the last transient line, which so reappears on the row below the message.
\<close>

theorem write_permanent_pending:
  assumes "need_cr h" and "CHR ''%'' \<notin> set (last_line h)"
    and "w = nat (max (min (term_width e) (len (last_line h))) (len data))"
    and "p = [CR] @ data @ replicate (w - length data) SP @ [LF] @ last_line h"
    and "raises e (calls h) (Write p) = None"
  shows "write_permanent e data h =
           (None, h\<lparr>calls := calls h @ [Write p], out := out h @ p\<rparr>) \<and>
         length (data @ replicate (w - length data) SP) = w"
proof -
  have f: "py_format (write_fmt e data h) data = Inr p"
    using write_fmt_pending [OF assms(1,2), of e data] assms(3,4)
    by (simp add: pad_def write_width_def)
  have "length data \<le> w" using assms(3) by simp
  then have "length (data @ replicate (w - length data) SP) = w" by simp
  moreover have "write_permanent e data h =
      (None, h\<lparr>calls := calls h @ [Write p], out := out h @ p\<rparr>)"
    unfolding write_permanent_def by (rule write_or_encode_accept [OF f assms(5)])
  ultimately show ?thesis by simp
qed

theorem write_permanent_pending_witness:
  "write_permanent (quiet_env 10) ''ALERT''
     (fresh\<lparr>need_cr := True, last_line := ''transient'', out := ''transient''\<rparr>) =
   (None, fresh\<lparr>need_cr := True, last_line := ''transient'',
      calls := [Write ([CR] @ ''ALERT    '' @ [LF] @ ''transient'')],
      out := ''transient'' @ [CR] @ ''ALERT    '' @ [LF] @ ''transient''\<rparr>)"
  using write_permanent_pending
    [of "fresh\<lparr>need_cr := True, last_line := ''transient'', out := ''transient''\<rparr>"
      9 "quiet_env 10" "''ALERT''" "[CR] @ ''ALERT    '' @ [LF] @ ''transient''"]
  by (simp add: fresh_def quiet_env_def eval_nat_numeral)

text \<open>
  C1 as stated fails: on a terminal of width 10, with \<^verbatim>\<open>bb\<close> pending, the message
  \<^verbatim>\<open>ALERT\<close> is written on 5 columns, fewer than \<open>max 10 (len ''bb'')\<close>.
\<close>

theorem write_permanent_pads_less:
  "out (snd (write_permanent (quiet_env 10) ''ALERT''
      (snd (transient_write (quiet_env 10) ''bb'' fresh)))) =
   ''bb'' @ [CR] @ ''ALERT'' @ [LF] @ ''bb'' \<and>
   len ''ALERT'' < max (term_width (quiet_env 10)) (len ''bb'')"
  by code_simp

text \<open>
  The case the statement leaves out: the last transient line is spliced into the format
  string, so a \<^verbatim>\<open>%\<close> in it is read as a conversion. With \<^verbatim>\<open>100%\<close>
  pending, the format ends inside a conversion, the \<^verbatim>\<open>%\<close> operator raises
  ValueError before the stream is called, and the message is not written.
\<close>

lemma write_permanent_percent_in_last:
  "write_permanent (quiet_env 80) ''ALERT''
     (snd (transient_write (quiet_env 80) ''100%'' fresh)) =
   (Some ValueError, snd (transient_write (quiet_env 80) ''100%'' fresh))"
  by code_simp

subsection \<open>C2: the text a transient write puts out for a line\<close>

text \<open>
  C2, as the code has it: for every non-empty line a transient write processes, on a
  stream that accepts the text, the line (cut to the terminal width when longer) is
  written left-justified and padded with spaces to exactly
  \<open>max (min terminal_width (len last_line)) (len line)\<close> columns, with no carriage
  return and no line feed after it; it becomes the last transient line.
\<close>

theorem transient_line_nonempty:
  assumes "line \<noteq> []"
    and "l = truncate_line width line"
    and "w = nat (max (min width (len (last_line h))) (len l))"
    and "p = l @ replicate (w - length l) SP"
    and "raises e (calls h) (Write p) = None"
  shows "transient_line e width line h =
           (None, h\<lparr>last_line := l, calls := calls h @ [Write p], out := out h @ p\<rparr>) \<and>
         length p = w"
proof -
  have p: "p = pad True (nat (line_width width l h)) l"
    using assms(3,4) by (simp add: pad_def line_width_def)
  have "length l \<le> w" using assms(3) by simp
  then have "length p = w" using assms(4) by simp
  with transient_line_accept [OF assms(1,2) p assms(5)] show ?thesis by simp
qed

theorem transient_line_nonempty_witness:
  "transient_line (quiet_env 10) 10 ''ab''
     (fresh\<lparr>need_cr := True, last_line := ''hello''\<rparr>) =
   (None, fresh\<lparr>need_cr := True, last_line := ''ab'', calls := [Write ''ab   ''],
      out := ''ab   ''\<rparr>)"
  using transient_line_nonempty
    [of "''ab''" "''ab''" 10 5 "fresh\<lparr>need_cr := True, last_line := ''hello''\<rparr>"
      "''ab   ''" "quiet_env 10"]
  by (simp add: fresh_def quiet_env_def truncate_line_def eval_nat_numeral)

text \<open>
  C2 as stated fails: on a fresh handler and a terminal of width 10 the line
  \<^verbatim>\<open>a\<close> is written on one column, not on \<open>max 10 (max 0 1)\<close>.
\<close>

theorem transient_write_pads_less:
  "out (snd (transient_write (quiet_env 10) ''a'' fresh)) = ''a'' \<and>
   len ''a'' < max (max (term_width (quiet_env 10)) (len (last_line fresh))) (len ''a'')"
  by code_simp

subsection \<open>C3: a line longer than the terminal is wide\<close>

text \<open>
  C3, as the code has it: for every transient line longer than the terminal width
  \<open>W\<close>, with \<open>W\<close> at least 3, the line as rendered before padding is its first
  \<open>W - 3\<close> characters followed by three dots, so exactly \<open>W\<close> characters; it is what
  the handler keeps as the last transient line.
\<close>

theorem truncate_line_long:
  assumes "3 \<le> width" and "len line > width"
  shows "truncate_line width line = take (nat width - 3) line @ ''...'' \<and>
         length (truncate_line width line) = nat width \<and>
         last_line (snd (transient_line e width line h)) = truncate_line width line"
proof -
  have ne: "line \<noteq> []" using assms by auto
  have t: "truncate_line width line = take (nat width - 3) line @ ''...''"
    using assms by (simp add: truncate_line_def slice_to_def nat_diff_distrib)
  have "nat width - 3 \<le> length line" using assms by linarith
  then have "length (take (nat width - 3) line @ ''...'') = nat width"
    using assms by simp
  with t transient_line_last [OF ne] show ?thesis by simp
qed

theorem truncate_line_long_witness:
  "truncate_line 10 ''abcdefghijklmn'' = ''abcdefg...'' \<and>
   last_line (snd (transient_line (quiet_env 10) 10 ''abcdefghijklmn'' fresh)) = ''abcdefg...''"
  using truncate_line_long [of 10 "''abcdefghijklmn''" "quiet_env 10" fresh]
  by simp

text \<open>
  C3 as stated fails for the positive widths 1 and 2, where the slice
  \<^verbatim>\<open>line[:width - 3]\<close> counts from the end: on a terminal of width 2 the line
  \<^verbatim>\<open>abc\<close> is rendered as \<^verbatim>\<open>ab...\<close>, 5 characters.
\<close>

theorem narrow_terminal_line_grows:
  "last_line (snd (transient_write (quiet_env 2) ''abc'' fresh)) = ''ab...'' \<and>
   out (snd (transient_write (quiet_env 2) ''abc'' fresh)) = ''ab...'' \<and>
   length ''ab...'' = 5"
  by code_simp

subsection \<open>C4: two debug messages, then a warning\<close>

text \<open>
  C4, as the code has it: on a fresh handler with threshold WARNING and a terminal of
  width 10, emitting DEBUG \<^verbatim>\<open>a\<close> and then DEBUG \<^verbatim>\<open>bb\<close> writes exactly
  \<^verbatim>\<open>a\<close>, a carriage return and \<^verbatim>\<open>bb\<close>: no carriage return before the
  first message, no padding (each line is padded only to the length of the line before
  it), no line feed. Emitting WARNING \<^verbatim>\<open>ALERT\<close> next appends a carriage return,
  \<^verbatim>\<open>ALERT\<close>, a line feed and \<^verbatim>\<open>bb\<close>: the terminal shows
  \<^verbatim>\<open>ALERT\<close> on one row and \<^verbatim>\<open>bb\<close> on the row below, and
  \<^verbatim>\<open>need_cr\<close> is still true.
\<close>

theorem scenario_bytes:
  "emit_all (quiet_env 10)
     [\<lparr>rlevelno = DEBUG, rmsg = ''a''\<rparr>, \<lparr>rlevelno = DEBUG, rmsg = ''bb''\<rparr>] fresh =
   (None, fresh\<lparr>need_cr := True, last_line := ''bb'',
      calls := [Write ''a'', Write [CR], Write ''bb''],
      out := ''a'' @ [CR] @ ''bb''\<rparr>) \<and>
   emit (quiet_env 10) \<lparr>rlevelno = WARNING, rmsg = ''ALERT''\<rparr>
     (fresh\<lparr>need_cr := True, last_line := ''bb'',
      calls := [Write ''a'', Write [CR], Write ''bb''],
      out := ''a'' @ [CR] @ ''bb''\<rparr>) =
   (None, fresh\<lparr>need_cr := True, last_line := ''bb'',
      calls := [Write ''a'', Write [CR], Write ''bb'', Write ([CR] @ ''ALERT'' @ [LF] @ ''bb'')],
      out := ''a'' @ [CR] @ ''bb'' @ [CR] @ ''ALERT'' @ [LF] @ ''bb''\<rparr>) \<and>
   display blank (''a'' @ [CR] @ ''bb'' @ [CR] @ ''ALERT'' @ [LF] @ ''bb'') =
     \<lparr>rows_done = [''ALERT''], row = ''bb'', col = 2\<rparr>"
  by code_simp

text \<open>
  C4 as stated fails: the text written by the two debug messages is not the padded text
  of the claim.
\<close>

theorem scenario_bytes_not_padded:
  "out (snd (emit_all (quiet_env 10)
     [\<lparr>rlevelno = DEBUG, rmsg = ''a''\<rparr>, \<lparr>rlevelno = DEBUG, rmsg = ''bb''\<rparr>] fresh)) \<noteq>
   [CR] @ ''a         '' @ [CR] @ ''bb        ''"
  by code_simp

subsection \<open>C5: what a permanent write leaves unchanged\<close>

text \<open>
  C5, as the code has it: for every permanent write, whatever the state before and
  whether or not the write raises, \<^verbatim>\<open>last\<close> and \<^verbatim>\<open>need_cr\<close> are both
  unchanged. In particular \<^verbatim>\<open>need_cr\<close> is not cleared: it is false afterwards
  only if it was false before.
\<close>

theorem write_permanent_frame:
  "last_line (snd (write_permanent e data h)) = last_line h \<and>
   need_cr (snd (write_permanent e data h)) = need_cr h"
  by (simp add: write_permanent_def write_or_encode_frame)

text \<open>
  C5 as stated fails: after the transient write of \<^verbatim>\<open>bb\<close> on a fresh handler,
  the permanent write of \<^verbatim>\<open>ALERT\<close> leaves \<^verbatim>\<open>need_cr\<close> true.
\<close>

theorem write_permanent_need_cr_stays_true:
  "need_cr (snd (write_permanent (quiet_env 10) ''ALERT''
      (snd (transient_write (quiet_env 10) ''bb'' fresh)))) = True"
  by code_simp

subsection \<open>C6: a run of transient messages\<close>

text \<open>
  C6, as the code has it: on a terminal at least 3 columns wide and a stream that
  accepts, for every non-empty sequence of transient messages written from a fresh
  handler, each of them one line of text (not empty once its trailing whitespace is
  stripped, and with no line feed and no carriage return in it), the terminal shows
  after the last write one row only, and that row is the last message, cut to the width
  when longer, followed by spaces only: no character of an earlier message is visible.
\<close>

theorem transient_run_shows_last:
  assumes "accepting e" and "3 \<le> term_width e" and "ms \<noteq> []" and "list_all one_line ms"
  shows "fst (transient_run e ms fresh) = None \<and>
         rows_done (display blank (out (snd (transient_run e ms fresh)))) = [] \<and>
         (\<exists>k. row (display blank (out (snd (transient_run e ms fresh)))) =
              truncate_line (term_width e) (rstrip (last ms)) @ replicate k SP)"
proof -
  have "shows_last (term_width e) fresh"
    using assms(2) by (intro shows_last_fresh) simp
  from transient_run_keeps [OF assms(1,2,4) this] assms(3)
  have "fst (transient_run e ms fresh) = None"
    and s: "shows_last (term_width e) (snd (transient_run e ms fresh))"
    and l: "last_line (snd (transient_run e ms fresh)) = truncate_line (term_width e) (rstrip (last ms))"
    by simp_all
  moreover from s l have "rows_done (display blank (out (snd (transient_run e ms fresh)))) = []"
    and "row (display blank (out (snd (transient_run e ms fresh)))) =
              truncate_line (term_width e) (rstrip (last ms)) @
              replicate (length (row (display blank (out (snd (transient_run e ms fresh))))) -
                 length (truncate_line (term_width e) (rstrip (last ms)))) SP"
    by (simp_all add: shows_last_def Let_def)
  ultimately show ?thesis by blast
qed

theorem transient_run_shows_last_witness:
  "fst (transient_run (quiet_env 10) [''a longer message'', ''ok''] fresh) = None \<and>
   rows_done (display blank (out (snd (transient_run (quiet_env 10) [''a longer message'', ''ok''] fresh)))) = [] \<and>
   (\<exists>k. row (display blank (out (snd (transient_run (quiet_env 10) [''a longer message'', ''ok''] fresh)))) =
        ''ok'' @ replicate k SP)"
proof -
  have a: "accepting (quiet_env 10)" by (simp add: accepting_def quiet_env_def)
  have w: "3 \<le> term_width (quiet_env 10)" by (simp add: quiet_env_def)
  have n: "[''a longer message'', ''ok''] \<noteq> []" by simp
  have r: "rstrip ''ok'' = ''ok''" "rstrip ''a longer message'' = ''a longer message''"
    by (simp_all add: rstrip_def is_space_def)
  have o: "list_all one_line [''a longer message'', ''ok'']"
    by (simp add: one_line_def r)
  have t: "truncate_line (term_width (quiet_env 10)) (rstrip (last [''a longer message'', ''ok''])) = ''ok''"
    by (simp add: r truncate_line_def quiet_env_def)
  show ?thesis
    using transient_run_shows_last [OF a w n o] unfolding t .
qed

text \<open>
  C6 as stated fails. After \<^verbatim>\<open>abc\<close> an empty message writes a carriage return
  only, and \<^verbatim>\<open>abc\<close> stays on the terminal. After the two-line message
  \<^verbatim>\<open>ab\ncd\<close>, whose lines are written one after the other on the same row, the
  message \<^verbatim>\<open>x\<close> is padded to the length of \<^verbatim>\<open>cd\<close>, and \<^verbatim>\<open>cd\<close>
  stays visible. A carriage return inside a message (\<^verbatim>\<open>a\rb\<close> after
  \<^verbatim>\<open>xyz\<close>) and a terminal of width 2 (where cutting a line makes it longer)
  leave earlier text visible too.
\<close>

theorem earlier_transient_text_stays:
  "row (display blank (out (snd (transient_run (quiet_env 10) [''abc'', ''''] fresh)))) = ''abc'' \<and>
   row (display blank (out (snd (transient_run (quiet_env 10) [''ab'' @ [LF] @ ''cd'', ''x''] fresh)))) =
     ''x cd'' \<and>
   row (display blank (out (snd (transient_run (quiet_env 10) [''xyz'', ''a'' @ [CR] @ ''b''] fresh)))) =
     ''byz'' \<and>
   row (display blank (out (snd (transient_run (quiet_env 2) [''abcdef'', ''x''] fresh)))) =
     ''x cde...''"
  by code_simp

subsection \<open>C7: the same transient message twice\<close>

text \<open>
  C7, as the code has it: for every message \<open>m\<close> that, stripped of trailing
  whitespace, holds no line feed and no carriage return, on a stream that accepts and a
  terminal whose cursor is where the handler takes it to be, a second transient write of
  \<open>m\<close> right after the first leaves the handler's \<^verbatim>\<open>last\<close> and
  \<^verbatim>\<open>need_cr\<close> and the rows of the terminal as the first left them; the second
  write puts out a carriage return and the line itself, without padding (two carriage
  returns when the stripped message is empty).
\<close>

theorem transient_write_twice:
  assumes acc: "accepting e"
    and nlf: "LF \<notin> set (rstrip m)" and ncr: "CR \<notin> set (rstrip m)"
    and c0: "cursor_ok h"
    and h1: "h1 = snd (transient_write e m h)"
    and h2: "h2 = snd (transient_write e m h1)"
  shows "fst (transient_write e m h) = None \<and> fst (transient_write e m h1) = None \<and>
         last_line h2 = last_line h1 \<and> need_cr h2 = need_cr h1 \<and>
         rows_done (display blank (out h2)) = rows_done (display blank (out h1)) \<and>
         row (display blank (out h2)) = row (display blank (out h1)) \<and>
         out h2 = out h1 @ [CR] @
           (if rstrip m = [] then [CR] else truncate_line (term_width e) (rstrip m))"
proof (cases "rstrip m = []")
  case True
  have a: "transient_write e m h = (None, h1)"
    and h1e: "h1 = h\<lparr>need_cr := True,
        calls := calls h @ (if need_cr h then [Write [CR]] else []) @ [Write [CR], Flush],
        out := out h @ (if need_cr h then [CR] else []) @ [CR]\<rparr>"
    using transient_write_blank [OF acc True, of h] h1 by simp_all
  have b: "transient_write e m h1 = (None, h2)"
    and h2e: "h2 = h1\<lparr>need_cr := True,
        calls := calls h1 @ (if need_cr h1 then [Write [CR]] else []) @ [Write [CR], Flush],
        out := out h1 @ (if need_cr h1 then [CR] else []) @ [CR]\<rparr>"
    using transient_write_blank [OF acc True, of h1] h2 by simp_all
  have n1: "need_cr h1" by (simp add: h1e)
  have o2: "out h2 = out h1 @ [CR, CR]" by (simp add: h2e n1)
  have "display blank (out h2) = (display blank (out h1))\<lparr>col := 0\<rparr>"
    by (simp add: o2 display_append display_Cons display_Nil put_char_def)
  then show ?thesis
    using True by (simp add: a b o2) (simp add: h2e n1)
next
  case False
  define W where "W = term_width e"
  define l where "l = truncate_line W (rstrip m)"
  define p where "p = pad True (nat (line_width W l h)) l"
  define pre where "pre = (if need_cr h then [CR] else [])"
  define t where "t = display blank (out h)"
  have a: "transient_write e m h = (None, h1)"
    and h1e: "h1 = h\<lparr>need_cr := True, last_line := l,
        calls := calls h @ (if need_cr h then [Write [CR]] else []) @ [Write p],
        out := out h @ pre @ p\<rparr>"
    using transient_write_one [OF acc False nlf, of l p h] h1
    by (simp_all add: l_def W_def p_def pre_def)
  have n1: "need_cr h1" and l1: "last_line h1 = l" and o1: "out h1 = out h @ pre @ p"
    by (simp_all add: h1e)
  have lw: "line_width W l h1 = len l"
    by (simp add: line_width_def l1)
  have p2: "l = pad True (nat (line_width W l h1)) l"
    by (simp add: lw pad_def)
  have b: "transient_write e m h1 = (None, h2)"
    and h2e: "h2 = h1\<lparr>need_cr := True, last_line := l,
        calls := calls h1 @ (if need_cr h1 then [Write [CR]] else []) @ [Write l],
        out := out h1 @ (if need_cr h1 then [CR] else []) @ l\<rparr>"
    using transient_write_one [OF acc False nlf, of l l h1] p2 h2
    by (simp_all add: l_def W_def)
  have o2: "out h2 = out h1 @ [CR] @ l" by (simp add: h2e n1)
  have lcr: "CR \<notin> set l" "LF \<notin> set l"
    using set_truncate_line [of W "rstrip m"] nlf ncr by (auto simp: l_def)
  have pcr: "CR \<notin> set p" "LF \<notin> set p"
    unfolding p_def l_def using pad_text [OF ncr nlf] by simp_all
  have t1: "display t pre = t\<lparr>col := 0\<rparr>"
    unfolding pre_def by (rule display_prefix) (use c0 in \<open>simp add: t_def cursor_ok_def\<close>)
  have d1: "display blank (out h1) =
      \<lparr>rows_done = rows_done t, row = p @ drop (length p) (row t), col = length p\<rparr>"
    using display_text_col0 [OF pcr, of t]
    by (simp add: o1 display_append t_def [symmetric] t1)
  define t' where "t' = display blank (out h1)"
  have d2: "display blank (out h2) =
      \<lparr>rows_done = rows_done t', row = l @ drop (length l) (row t'), col = length l\<rparr>"
    using display_text_col0 [OF lcr, of t']
    by (simp add: o2 display_append t'_def [symmetric] display_CR)
       (simp add: display_Cons put_char_def)
  have pl: "p = l @ replicate (nat (line_width W l h) - length l) SP"
    by (simp add: p_def pad_def)
  have "row t' = l @ (replicate (nat (line_width W l h) - length l) SP @ drop (length p) (row t))"
    using d1 by (simp add: t'_def pl)
  then have "l @ drop (length l) (row t') = row t'" by simp
  then have "row (display blank (out h2)) = row t' \<and> rows_done (display blank (out h2)) = rows_done t'"
    by (simp add: d2)
  then show ?thesis
    using False by (simp add: a b o2 t'_def l_def W_def) (simp add: h2e n1 l1 l_def W_def)
qed

theorem transient_write_twice_witness:
  "row (display blank (out (snd (transient_write (quiet_env 10) ''bb''
       (snd (transient_write (quiet_env 10) ''bb''
          (snd (transient_write (quiet_env 10) ''hello'' fresh)))))))) =
   row (display blank (out (snd (transient_write (quiet_env 10) ''bb''
          (snd (transient_write (quiet_env 10) ''hello'' fresh)))))) \<and>
   out (snd (transient_write (quiet_env 10) ''bb''
       (snd (transient_write (quiet_env 10) ''bb''
          (snd (transient_write (quiet_env 10) ''hello'' fresh)))))) =
   out (snd (transient_write (quiet_env 10) ''bb''
          (snd (transient_write (quiet_env 10) ''hello'' fresh)))) @ [CR] @ ''bb''"
proof -
  let ?h = "snd (transient_write (quiet_env 10) ''hello'' fresh)"
  have a: "accepting (quiet_env 10)" by (simp add: accepting_def quiet_env_def)
  have r: "rstrip ''bb'' = ''bb''" by (simp add: rstrip_def is_space_def)
  have n: "LF \<notin> set (rstrip ''bb'')" "CR \<notin> set (rstrip ''bb'')" by (simp_all add: r)
  have c: "cursor_ok ?h" by (rule cursor_ok_transient_write)
  have t: "truncate_line (term_width (quiet_env 10)) ''bb'' = ''bb''"
    by (simp add: truncate_line_def quiet_env_def)
  show ?thesis
    using transient_write_twice [OF a n c refl refl] by (auto simp: r t)
qed

text \<open>
  C7 as stated fails for a message with a carriage return inside, which is one line for
  \<^verbatim>\<open>split('\n')\<close>: over the pending line \<^verbatim>\<open>xxxxxxxx\<close> the message
  \<^verbatim>\<open>abc\rd\<close> shows \<^verbatim>\<open>d   xxxx\<close> when written once and
  \<^verbatim>\<open>dbc xxxx\<close> when written twice.
\<close>

theorem carriage_return_inside_message:
  "row (display blank (out (snd (transient_write (quiet_env 10) (''abc'' @ [CR] @ ''d'')
          (snd (transient_write (quiet_env 10) ''xxxxxxxx'' fresh)))))) = ''d   xxxx'' \<and>
   row (display blank (out (snd (transient_write (quiet_env 10) (''abc'' @ [CR] @ ''d'')
       (snd (transient_write (quiet_env 10) (''abc'' @ [CR] @ ''d'')
          (snd (transient_write (quiet_env 10) ''xxxxxxxx'' fresh)))))))) = ''dbc xxxx''"
  by code_simp

subsection \<open>C8: the retry after a UnicodeError\<close>

text \<open>
  C8, as the code has it. Both write paths end in the same block, \<open>write_or_encode\<close>,
  applied to the formatted message of a permanent write and to each non-empty line of a
  transient write. When the stream raises a UnicodeError on the formatted text, the
  message is encoded, and if that succeeds the stream is called exactly once more, with
  the format applied to the encoded message; whatever that call gives is the outcome (a
  second UnicodeError is not caught). If encoding raises, that exception is the outcome
  and the stream is not called again. Nothing else is retried: any other exception of
  that call, an error of the \<^verbatim>\<open>%\<close> operator (no call at all), and any exception,
  a UnicodeError included, raised by a bare carriage-return write (the one that opens a
  transient write or the one for an empty line), by the flush or by the line feed of
  \<^verbatim>\<open>close\<close> ends the method at once, with no further call on the stream; an
  exception in one line ends the loop over the lines.
\<close>

theorem unicode_retry:
  "(py_format fmt data = Inr p \<and> raises e (calls h) (Write p) = Some UnicodeError \<and>
    encode e data = Inr d \<longrightarrow>
      (\<exists>p'. py_format fmt d = Inr p' \<and>
         calls (snd (write_or_encode e fmt data h)) = calls h @ [Write p, Write p'] \<and>
         fst (write_or_encode e fmt data h) = raises e (calls h @ [Write p]) (Write p'))) \<and>
   (py_format fmt data = Inr p \<and> raises e (calls h) (Write p) = Some UnicodeError \<and>
    encode e data = Inl y \<longrightarrow>
      write_or_encode e fmt data h = (Some y, h\<lparr>calls := calls h @ [Write p]\<rparr>)) \<and>
   (py_format fmt data = Inr p \<and> raises e (calls h) (Write p) = Some x \<and> x \<noteq> UnicodeError \<longrightarrow>
      write_or_encode e fmt data h = (Some x, h\<lparr>calls := calls h @ [Write p]\<rparr>)) \<and>
   (py_format fmt data = Inl x \<longrightarrow> write_or_encode e fmt data h = (Some x, h)) \<and>
   length (calls (snd (write_or_encode e fmt data h))) \<le> length (calls h) + 2 \<and>
   write_permanent e data h = write_or_encode e (write_fmt e data h) data h \<and>
   (line \<noteq> [] \<longrightarrow>
      transient_line e width line h =
        write_or_encode e
          (''%-'' @ str (line_width width (truncate_line width line) h) @ ''s'')
          (truncate_line width line) (h\<lparr>last_line := truncate_line width line\<rparr>)) \<and>
   (raises e (calls h) (Write [CR]) = Some x \<longrightarrow>
      transient_line e width [] h = (Some x, h\<lparr>calls := calls h @ [Write [CR]]\<rparr>)) \<and>
   (raises e (calls h) (Write [CR]) = None \<and> raises e (calls h @ [Write [CR]]) Flush = Some x \<longrightarrow>
      transient_line e width [] h =
        (Some x, h\<lparr>calls := calls h @ [Write [CR], Flush], out := out h @ [CR]\<rparr>)) \<and>
   (transient_line e width line h = (Some x, h1) \<longrightarrow>
      transient_lines e width (line # lines) h = (Some x, h1)) \<and>
   (need_cr h \<and> raises e (calls h) (Write [CR]) = Some x \<longrightarrow>
      transient_write e data h = (Some x, h\<lparr>calls := calls h @ [Write [CR]]\<rparr>)) \<and>
   (need_cr h \<and> raises e (calls h) (Write [LF]) = Some x \<longrightarrow>
      close e h = (Some x, h\<lparr>calls := calls h @ [Write [LF]]\<rparr>))"
proof -
  have bare: "transient_line e width [] h = (Some x, h\<lparr>calls := calls h @ [Write [CR]]\<rparr>)"
    if "raises e (calls h) (Write [CR]) = Some x"
    using that by (simp add: transient_line_def stream_call_def)
  have flush: "transient_line e width [] h =
        (Some x, h\<lparr>calls := calls h @ [Write [CR], Flush], out := out h @ [CR]\<rparr>)"
    if "raises e (calls h) (Write [CR]) = None" "raises e (calls h @ [Write [CR]]) Flush = Some x"
    using that by (simp add: transient_line_def stream_call_def)
  have loop: "transient_lines e width (line # lines) h = (Some x, h1)"
    if "transient_line e width line h = (Some x, h1)"
    using that by simp
  have lead: "transient_write e data h = (Some x, h\<lparr>calls := calls h @ [Write [CR]]\<rparr>)"
    if "need_cr h" "raises e (calls h) (Write [CR]) = Some x"
    using that by (simp add: transient_write_def stream_call_def)
  have cl: "close e h = (Some x, h\<lparr>calls := calls h @ [Write [LF]]\<rparr>)"
    if "need_cr h" "raises e (calls h) (Write [LF]) = Some x"
    using that by (simp add: close_def stream_call_def)
  have line: "transient_line e width line h =
        write_or_encode e
          (''%-'' @ str (line_width width (truncate_line width line) h) @ ''s'')
          (truncate_line width line) (h\<lparr>last_line := truncate_line width line\<rparr>)"
    if "line \<noteq> []"
    using that by (rule transient_line_block) simp
  from write_or_encode_retry [of fmt data p e h d]
    write_or_encode_no_retry [of fmt data p e h]
    write_or_encode_format_error [of fmt data x e h]
    write_or_encode_calls_bound [of e fmt data h]
    write_permanent_block [of e data h]
    bare flush loop lead cl line
  show ?thesis by blast
qed

theorem unicode_retry_witness:
  "calls (snd (write_permanent
      ((quiet_env 80)\<lparr>raises := (\<lambda>cs c. if cs = [] then Some UnicodeError else None)\<rparr>)
      ''msg'' fresh)) = [Write (''msg'' @ [LF]), Write (''msg'' @ [LF])] \<and>
   fst (write_permanent
      ((quiet_env 80)\<lparr>raises := (\<lambda>cs c. if cs = [] then Some UnicodeError else None)\<rparr>)
      ''msg'' fresh) = None \<and>
   transient_write ((quiet_env 80)\<lparr>raises := (\<lambda>cs c. Some UnicodeError)\<rparr>) ''next''
      (fresh\<lparr>need_cr := True, last_line := ''msg''\<rparr>) =
     (Some UnicodeError, fresh\<lparr>need_cr := True, last_line := ''msg'', calls := [Write [CR]]\<rparr>)"
proof -
  let ?e = "(quiet_env 80)\<lparr>raises := (\<lambda>cs c. if cs = [] then Some UnicodeError else None)\<rparr>"
  let ?u = "(quiet_env 80)\<lparr>raises := (\<lambda>cs c. Some UnicodeError)\<rparr>"
  let ?h = "fresh\<lparr>need_cr := True, last_line := ''msg''\<rparr>"
  have f: "py_format (write_fmt ?e ''msg'' fresh) ''msg'' = Inr (''msg'' @ [LF])"
    by (rule write_fmt_clean) (simp add: fresh_def)
  have r: "raises ?e (calls fresh) (Write (''msg'' @ [LF])) = Some UnicodeError"
    by (simp add: fresh_def quiet_env_def)
  have en: "encode ?e ''msg'' = Inr ''msg''" by (simp add: quiet_env_def)
  have n: "need_cr ?h" by simp
  have u: "raises ?u (calls ?h) (Write [CR]) = Some UnicodeError" by simp
  have a: "calls (snd (write_permanent ?e ''msg'' fresh)) = [Write (''msg'' @ [LF]), Write (''msg'' @ [LF])] \<and>
     fst (write_permanent ?e ''msg'' fresh) = None"
    using unicode_retry [where e = ?e and h = fresh and fmt = "write_fmt ?e ''msg'' fresh"
        and data = "''msg''" and p = "''msg'' @ [LF]" and d = "''msg''"] f r en
    by (auto simp: fresh_def quiet_env_def)
  have b: "transient_write ?u ''next'' ?h =
     (Some UnicodeError, ?h\<lparr>calls := calls ?h @ [Write [CR]]\<rparr>)"
    using unicode_retry [where e = ?u and h = ?h and data = "''next''" and x = UnicodeError] n u
    by blast
  from a b show ?thesis by (simp add: fresh_def)
qed

text \<open>
  C8 as stated fails: a byte string with a byte outside ASCII, written to a stream that
  encodes (\<open>codec_env\<close>). The stream raises a UnicodeError, \<^verbatim>\<open>encode\<close> raises
  one too, and the stream has been called once: nothing was retried.
\<close>

theorem unicode_no_retry_when_encode_fails:
  "raises (codec_env 80) (calls fresh) (Write ([CHR 0xE9] @ [LF])) = Some UnicodeError \<and>
   write_permanent (codec_env 80) [CHR 0xE9] fresh =
     (Some UnicodeError, fresh\<lparr>calls := [Write ([CHR 0xE9] @ [LF])]\<rparr>)"
  by code_simp

subsection \<open>C9: exceptions inside \<^verbatim>\<open>emit\<close>\<close>

text \<open>
  C9: for every record, if formatting or writing inside \<^verbatim>\<open>emit\<close> raises an
  exception, then KeyboardInterrupt and SystemExit leave \<^verbatim>\<open>emit\<close> (and the record
  is not reported), and every other exception is swallowed: the record is handed to
  \<^verbatim>\<open>handleError\<close> and \<^verbatim>\<open>emit\<close> returns normally. Stated by where the
  exception comes from: the formatter raises it; the last call made on the stream raises
  it (KeyboardInterrupt or SystemExit; any other but UnicodeError; UnicodeError, after
  which the outcome is a report unless \<^verbatim>\<open>encode\<close> itself raises one of the two
  signals, which then leaves \<^verbatim>\<open>emit\<close>); the \<^verbatim>\<open>%\<close> operator raises it in a
  permanent write. In no case does any other exception leave \<^verbatim>\<open>emit\<close>.
\<close>

theorem emit_exceptions:
  "(format e r = Inl x \<longrightarrow>
      emit e r h = (if x = KeyboardInterrupt \<or> x = SystemExit then (Some x, h)
                    else (None, h\<lparr>reported := reported h @ [r]\<rparr>))) \<and>
   (last_raised e h (snd (emit e r h)) = Some x \<and> (x = KeyboardInterrupt \<or> x = SystemExit) \<longrightarrow>
      fst (emit e r h) = Some x \<and> reported (snd (emit e r h)) = reported h) \<and>
   (last_raised e h (snd (emit e r h)) = Some x \<and> x \<noteq> KeyboardInterrupt \<and> x \<noteq> SystemExit \<and>
    x \<noteq> UnicodeError \<longrightarrow>
      fst (emit e r h) = None \<and> reported (snd (emit e r h)) = reported h @ [r]) \<and>
   (last_raised e h (snd (emit e r h)) = Some UnicodeError \<longrightarrow>
      fst (emit e r h) = None \<and> reported (snd (emit e r h)) = reported h @ [r] \<or>
      (\<exists>s y. encode e s = Inl y \<and> (y = KeyboardInterrupt \<or> y = SystemExit) \<and>
         fst (emit e r h) = Some y \<and> reported (snd (emit e r h)) = reported h)) \<and>
   (format e r = Inr msg \<and> levelno h \<le> rlevelno r \<and>
    py_format (write_fmt e msg h) msg = Inl x \<longrightarrow>
      emit e r h = (None, h\<lparr>reported := reported h @ [r]\<rparr>)) \<and>
   (fst (emit e r h) = None \<or> fst (emit e r h) = Some KeyboardInterrupt \<or>
    fst (emit e r h) = Some SystemExit)"
proof -
  obtain x1 h1 where b: "emit_body e r h = (x1, h1)" by (cases "emit_body e r h")
  have t: "traced e h (x1, h1)" using traced_emit_body [of e h r] by (simp add: b)
  have rp: "reported h1 = reported h" using t by (simp add: traced_def)
  have c: "calls (snd (emit e r h)) = calls h1"
    by (simp add: emit_def b handleError_def split: option.split)
  have l: "last_raised e h (snd (emit e r h)) = last_raised e h h1"
    by (rule last_raised_calls [OF c])
  have ks: "fst (emit e r h) = Some y \<and> reported (snd (emit e r h)) = reported h"
    if "x1 = Some y" "y = KeyboardInterrupt \<or> y = SystemExit" for y
    using that by (auto simp: emit_def b rp)
  have other: "fst (emit e r h) = None \<and> reported (snd (emit e r h)) = reported h @ [r]"
    if "x1 = Some y" "y \<noteq> KeyboardInterrupt" "y \<noteq> SystemExit" for y
    using that by (simp add: emit_def b rp handleError_def)
  have 1: "emit e r h = (if x = KeyboardInterrupt \<or> x = SystemExit then (Some x, h)
                    else (None, h\<lparr>reported := reported h @ [r]\<rparr>))"
    if "format e r = Inl x"
    using that by (simp add: emit_def emit_body_def handleError_def)
  have 2: "fst (emit e r h) = Some x \<and> reported (snd (emit e r h)) = reported h"
    if "last_raised e h (snd (emit e r h)) = Some x" "x = KeyboardInterrupt \<or> x = SystemExit"
  proof -
    from that have "x1 = Some x" using t by (auto simp: traced_def l)
    then show ?thesis using that(2) by (rule ks)
  qed
  have 3: "fst (emit e r h) = None \<and> reported (snd (emit e r h)) = reported h @ [r]"
    if "last_raised e h (snd (emit e r h)) = Some x" "x \<noteq> KeyboardInterrupt" "x \<noteq> SystemExit"
      "x \<noteq> UnicodeError"
  proof -
    from that have "x1 = Some x" using t by (auto simp: traced_def l)
    then show ?thesis using that(2,3) by (rule other)
  qed
  have 4: "fst (emit e r h) = None \<and> reported (snd (emit e r h)) = reported h @ [r] \<or>
      (\<exists>s y. encode e s = Inl y \<and> (y = KeyboardInterrupt \<or> y = SystemExit) \<and>
         fst (emit e r h) = Some y \<and> reported (snd (emit e r h)) = reported h)"
    if "last_raised e h (snd (emit e r h)) = Some UnicodeError"
  proof -
    from that t obtain y where y: "x1 = Some y"
      and src: "y = UnicodeError \<or> y = TypeError \<or> y = ValueError \<or> (\<exists>s. encode e s = Inl y)"
      by (auto simp: traced_def l)
    show ?thesis
    proof (cases "y = KeyboardInterrupt \<or> y = SystemExit")
      case True
      with src obtain s where "encode e s = Inl y" by auto
      with ks [OF y True] True show ?thesis by blast
    next
      case False
      then have "y \<noteq> KeyboardInterrupt" "y \<noteq> SystemExit" by simp_all
      with other [OF y] show ?thesis by simp
    qed
  qed
  have 5: "emit e r h = (None, h\<lparr>reported := reported h @ [r]\<rparr>)"
    if "format e r = Inr msg" "levelno h \<le> rlevelno r"
      "py_format (write_fmt e msg h) msg = Inl x"
  proof -
    have "x = TypeError \<or> x = ValueError" using that(3) by (rule py_format_exn)
    then show ?thesis
      using that
      by (auto simp: emit_def emit_body_def write_permanent_def write_or_encode_def
          stream_write_fmt_def handleError_def)
  qed
  have 6: "fst (emit e r h) = None \<or> fst (emit e r h) = Some KeyboardInterrupt \<or>
    fst (emit e r h) = Some SystemExit"
    by (rule emit_never_other)
  from 1 2 3 4 5 6 show ?thesis by blast
qed

theorem emit_exceptions_witness:
  "emit ((quiet_env 80)\<lparr>format := (\<lambda>r. Inl ValueError)\<rparr>)
      \<lparr>rlevelno = WARNING, rmsg = ''m''\<rparr> fresh =
     (None, fresh\<lparr>reported := [\<lparr>rlevelno = WARNING, rmsg = ''m''\<rparr>]\<rparr>) \<and>
   fst (emit ((quiet_env 80)\<lparr>raises := (\<lambda>cs c. Some KeyboardInterrupt)\<rparr>)
      \<lparr>rlevelno = DEBUG, rmsg = ''m''\<rparr> fresh) = Some KeyboardInterrupt \<and>
   reported (snd (emit ((quiet_env 80)\<lparr>raises := (\<lambda>cs c. Some KeyboardInterrupt)\<rparr>)
      \<lparr>rlevelno = DEBUG, rmsg = ''m''\<rparr> fresh)) = [] \<and>
   fst (emit ((quiet_env 80)\<lparr>raises := (\<lambda>cs c. Some IOError)\<rparr>)
      \<lparr>rlevelno = DEBUG, rmsg = ''m''\<rparr> fresh) = None \<and>
   reported (snd (emit ((quiet_env 80)\<lparr>raises := (\<lambda>cs c. Some IOError)\<rparr>)
      \<lparr>rlevelno = DEBUG, rmsg = ''m''\<rparr> fresh)) = [\<lparr>rlevelno = DEBUG, rmsg = ''m''\<rparr>]"
proof -
  let ?ef = "(quiet_env 80)\<lparr>format := (\<lambda>r. Inl ValueError)\<rparr>"
  let ?ek = "(quiet_env 80)\<lparr>raises := (\<lambda>cs c. Some KeyboardInterrupt)\<rparr>"
  let ?ei = "(quiet_env 80)\<lparr>raises := (\<lambda>cs c. Some IOError)\<rparr>"
  let ?w = "\<lparr>rlevelno = WARNING, rmsg = ''m''\<rparr>"
  let ?d = "\<lparr>rlevelno = DEBUG, rmsg = ''m''\<rparr>"
  have f: "format ?ef ?w = Inl ValueError" by simp
  have k: "last_raised ?ek fresh (snd (emit ?ek ?d fresh)) = Some KeyboardInterrupt"
    by code_simp
  have i: "last_raised ?ei fresh (snd (emit ?ei ?d fresh)) = Some IOError"
    by code_simp
  show ?thesis
    using emit_exceptions [of ?ef ?w ValueError fresh]
      emit_exceptions [of ?ek ?d KeyboardInterrupt fresh]
      emit_exceptions [of ?ei ?d IOError fresh] f k i
    by (simp add: fresh_def)
qed

subsection \<open>C10: a transient write of an empty message\<close>

text \<open>
  C10: a transient write whose message is empty once its trailing whitespace is
  stripped, made while \<^verbatim>\<open>need_cr\<close> is false on a stream that accepts, sets
  \<^verbatim>\<open>need_cr\<close>, calls the stream with a carriage return and then flushes it, and
  leaves everything else, the last transient line included, as it was; a
  \<^verbatim>\<open>close\<close> after it writes a line feed.
\<close>

theorem transient_write_empty:
  assumes "rstrip data = []" and "\<not> need_cr h" and "accepting e"
  shows "transient_write e data h =
           (None, h\<lparr>need_cr := True, calls := calls h @ [Write [CR], Flush], out := out h @ [CR]\<rparr>) \<and>
         close e (snd (transient_write e data h)) =
           (None, h\<lparr>need_cr := False, calls := calls h @ [Write [CR], Flush, Write [LF]],
                    out := out h @ [CR, LF]\<rparr>)"
  using assms
  by (simp add: transient_write_def transient_line_def stream_call_def close_def accepting_def)

theorem transient_write_empty_witness:
  "rstrip [LF] = [] \<and>
   transient_write (quiet_env 80) [LF] fresh =
     (None, fresh\<lparr>need_cr := True, calls := [Write [CR], Flush], out := [CR]\<rparr>) \<and>
   close (quiet_env 80) (snd (transient_write (quiet_env 80) [LF] fresh)) =
     (None, fresh\<lparr>calls := [Write [CR], Flush, Write [LF]], out := [CR, LF]\<rparr>)"
proof -
  have r: "rstrip [LF] = []" by (simp add: rstrip_def is_space_def)
  have n: "\<not> need_cr fresh" by (simp add: fresh_def)
  have a: "accepting (quiet_env 80)" by (simp add: accepting_def quiet_env_def)
  show ?thesis using transient_write_empty [OF r n a] r by (auto simp: fresh_def)
qed

end
